theory Spec2Isabelle
  imports Main "HOL-Library.Word"
begin

section \<open>JavaScript values and strings\<close>

text \<open>
  A JavaScript string is a sequence of UTF-16 code units; \<open>length\<close>, \<open>slice\<close> and the
  regular expressions of \<^verbatim>\<open>src/index.js\<close> all count code units.
\<close>

type_synonym jsstring = "16 word list"

definition ascii :: "string \<Rightarrow> jsstring" where
  "ascii s = map (\<lambda>c. of_nat (of_char c)) s"

definition ESC :: "16 word" where "ESC = 0x1B"
definition CSI :: "16 word" where "CSI = 0x9B"
definition BEL :: "16 word" where "BEL = 0x07"
definition LF :: "16 word" where "LF = 0x0A"
definition CR :: "16 word" where "CR = 0x0D"

text \<open>
  The values that reach the setters, the orchestrator's options and the tasks' settlements.
  \<open>JError st\<close> is an Error object whose \<open>stack\<close> property is the string \<open>st\<close>.
\<close>

datatype jsval =
    JUndefined
  | JNull
  | JBool bool
  | JNum int
  | JStr jsstring
  | JError jsstring

datatype error = TypeError string | Error string

text \<open>
  The outcome of a synchronous call: it returns, it throws, or (for the one unbounded
  \<^verbatim>\<open>while (1)\<close> loop of the source) it never comes back.
\<close>

datatype 'a outcome = Returns 'a | Throws error | Hangs

definition nullOrUndefined :: "jsval \<Rightarrow> bool" where
  "nullOrUndefined v = (v = JUndefined \<or> v = JNull)"

section \<open>Regular expressions with backtracking priority\<close>

text \<open>
  The source uses three regular expressions: the literal \<^verbatim>\<open>/\r?\n|\r/\<close> of the setters,
  and the pattern of the \<^verbatim>\<open>ansi-regex\<close> package, directly and through \<^verbatim>\<open>strip-ansi\<close>.
  \<open>rmatch r s\<close> lists, in the order a backtracking matcher tries them, the suffixes of
  \<open>s\<close> that remain after a match of \<open>r\<close> at the start of \<open>s\<close>; the first one is the match
  the engine reports. A greedy quantifier tries one more iteration before it tries to
  stop, and an iteration beyond the minimum that consumes nothing is rejected.
\<close>

datatype rx =
    Eps
  | Cls "16 word \<Rightarrow> bool"
  | Seq rx rx
  | Alt rx rx
  | Rep nat "nat option" rx

fun reps :: "(jsstring \<Rightarrow> jsstring list) \<Rightarrow> nat \<Rightarrow> nat \<Rightarrow> jsstring \<Rightarrow> jsstring list" where
  "reps m lo 0 s = [s]"
| "reps m lo (Suc hi) s =
     (if lo = 0
      then concat (map (\<lambda>r. reps m 0 hi r) (filter (\<lambda>r. length r < length s) (m s))) @ [s]
      else concat (map (\<lambda>r. reps m (lo - 1) hi r) (m s)))"

primrec rmatch :: "rx \<Rightarrow> jsstring \<Rightarrow> jsstring list" where
  "rmatch Eps s = [s]"
| "rmatch (Cls p) s = (case s of [] \<Rightarrow> [] | c # cs \<Rightarrow> if p c then [cs] else [])"
| "rmatch (Seq a b) s = concat (map (rmatch b) (rmatch a s))"
| "rmatch (Alt a b) s = rmatch a s @ rmatch b s"
| "rmatch (Rep lo hi a) s =
     reps (rmatch a) lo (case hi of None \<Rightarrow> lo + length s | Some h \<Rightarrow> h) s"

definition match_at :: "rx \<Rightarrow> jsstring \<Rightarrow> nat option" where
  \<comment> \<open>the length of the match at the start of \<open>s\<close>, if there is one\<close>
  "match_at r s = (case rmatch r s of [] \<Rightarrow> None | rest # _ \<Rightarrow> Some (length s - length rest))"

datatype piece = Lit "16 word" | Hit jsstring

text \<open>
  A global scan (\<^verbatim>\<open>g\<close> flag): leftmost match first, then on from its end; after an
  empty match the scan moves one code unit on.
\<close>

function scan :: "rx \<Rightarrow> jsstring \<Rightarrow> piece list" where
  "scan r [] = (if rmatch r [] = [] then [] else [Hit []])"
| "scan r (c # cs) =
     (case match_at r (c # cs) of
        None \<Rightarrow> Lit c # scan r cs
      | Some n \<Rightarrow>
          if n = 0 then Hit [] # Lit c # scan r cs
          else Hit (take n (c # cs)) # scan r (drop n (c # cs)))"
  by pat_completeness auto
termination
  by (relation "measure (\<lambda>(r, s). length s)") auto

definition match_all :: "rx \<Rightarrow> jsstring \<Rightarrow> jsstring list" where
  \<comment> \<open>\<^verbatim>\<open>s.match(r) || []\<close> for a global \<open>r\<close>\<close>
  "match_all r s = concat (map (\<lambda>p. case p of Hit m \<Rightarrow> [m] | Lit c \<Rightarrow> []) (scan r s))"

definition replace_all :: "rx \<Rightarrow> jsstring \<Rightarrow> jsstring \<Rightarrow> jsstring" where
  \<comment> \<open>\<^verbatim>\<open>s.replace(r, repl)\<close> for a global \<open>r\<close>\<close>
  "replace_all r repl s = concat (map (\<lambda>p. case p of Hit m \<Rightarrow> repl | Lit c \<Rightarrow> [c]) (scan r s))"

fun replace_first :: "rx \<Rightarrow> jsstring \<Rightarrow> jsstring \<Rightarrow> jsstring" where
  \<comment> \<open>\<^verbatim>\<open>s.replace(r, repl)\<close> for an \<open>r\<close> without the \<^verbatim>\<open>g\<close> flag: the first match only\<close>
  "replace_first r repl [] = (if rmatch r [] = [] then [] else repl)"
| "replace_first r repl (c # cs) =
     (case match_at r (c # cs) of
        None \<Rightarrow> c # replace_first r repl cs
      | Some n \<Rightarrow> repl @ drop n (c # cs))"

definition chr :: "16 word \<Rightarrow> rx" where
  "chr c = Cls (\<lambda>x. x = c)"

definition star :: "rx \<Rightarrow> rx" where "star r = Rep 0 None r"
definition plus :: "rx \<Rightarrow> rx" where "plus r = Rep 1 None r"
definition opt :: "rx \<Rightarrow> rx" where "opt r = Rep 0 (Some 1) r"

fun lit :: "jsstring \<Rightarrow> rx" where
  "lit [] = Eps"
| "lit [c] = chr c"
| "lit (c # cs) = Seq (chr c) (lit cs)"

definition linebreak :: rx where
  \<comment> \<open>\<^verbatim>\<open>/\r?\n|\r/\<close>\<close>
  "linebreak = Alt (Seq (opt (chr CR)) (chr LF)) (chr CR)"

section \<open>The spinner's configuration\<close>

record frameset =
  frames :: "jsstring list"
  interval :: nat

record spinner =
  verbose :: bool
  symSpinner :: "frameset option"
  symPrefixText :: jsstring
  symText :: jsstring
  symColor :: "jsstring option"
  started :: bool
  frameIndex :: nat
  spinnerPos :: "nat option"
  listening :: bool
  timers :: nat
  handle :: bool

text \<open>
  \<open>symSpinner\<close>, \<open>symPrefixText\<close>, \<open>symText\<close> and \<open>symColor\<close> are the fields behind the
  four symbols of the class; \<open>None\<close> stands for \<^verbatim>\<open>undefined\<close> or \<^verbatim>\<open>null\<close>.
  \<open>listening\<close> says that the listener the constructor registered with
  \<^verbatim>\<open>once(this.emitter, "start")\<close> has not fired yet; \<open>timers\<close> counts the interval timers
  of the instance that are live and \<open>handle\<close> says that \<^verbatim>\<open>this.interval\<close> names one of them.
  The clock (\<open>startTime\<close>, \<open>elapsedTime\<close>) is left out.
\<close>

definition text_set :: "jsval \<Rightarrow> spinner \<Rightarrow> spinner outcome" where
  "text_set v sp =
     (case v of
        JStr s \<Rightarrow> Returns (sp\<lparr>symText := replace_first linebreak [] s\<rparr>)
      | _ \<Rightarrow> Throws (TypeError ''text must be a type of string''))"

definition text_get :: "spinner \<Rightarrow> jsstring" where
  "text_get sp = symText sp"

definition prefixText_set :: "jsval \<Rightarrow> spinner \<Rightarrow> spinner" where
  "prefixText_set v sp =
     sp\<lparr>symPrefixText :=
          (case v of JStr s \<Rightarrow> replace_first linebreak [] s @ ascii '' - '' | _ \<Rightarrow> [])\<rparr>"

definition prefixText_get :: "spinner \<Rightarrow> jsstring" where
  "prefixText_get sp = symPrefixText sp"

definition color_set :: "jsval \<Rightarrow> spinner \<Rightarrow> spinner outcome" where
  "color_set v sp =
     (case v of
        JStr s \<Rightarrow> Returns (sp\<lparr>symColor := Some s\<rparr>)
      | JUndefined \<Rightarrow> Returns (sp\<lparr>symColor := None\<rparr>)
      | JNull \<Rightarrow> Returns (sp\<lparr>symColor := None\<rparr>)
      | _ \<Rightarrow> Throws (TypeError ''Color must be a type of string or undefined''))"

section \<open>The collaborators of the line renderer\<close>

text \<open>
  The packages \<^verbatim>\<open>ansi-regex\<close>, \<^verbatim>\<open>strip-ansi\<close>, \<^verbatim>\<open>@topcli/wcwidth\<close>, \<^verbatim>\<open>kleur\<close> and
  \<^verbatim>\<open>cli-spinners\<close> are imported by \<^verbatim>\<open>src/index.js\<close>, not part of it. They are
  modelled here after their published behaviour; what varies from one run to the next,
  or is a table too large to restate, is a field of \<open>env\<close>:
  the column width of the stream, whether \<^verbatim>\<open>kleur\<close> emits colors (\<^verbatim>\<open>kleur.enabled\<close>),
  the table of zero-width combining characters of \<^verbatim>\<open>wcwidth\<close>, the table of presets of
  \<^verbatim>\<open>cli-spinners\<close>, and the two glyphs of \<^verbatim>\<open>./src/logSymbols.js\<close>.
\<close>

record env =
  columns :: nat
  colors :: bool
  combining :: "16 word \<Rightarrow> bool"
  cliSpinners :: "jsstring \<Rightarrow> frameset option"
  logSuccess :: jsstring
  logError :: jsstring

definition ord :: "char \<Rightarrow> 16 word" where
  "ord c = of_nat (of_char c)"

definition between :: "char \<Rightarrow> char \<Rightarrow> 16 word \<Rightarrow> bool" where
  "between lo hi c = (ord lo \<le> c \<and> c \<le> ord hi)"

definition one_of :: "string \<Rightarrow> 16 word \<Rightarrow> bool" where
  "one_of cs c = (c \<in> set (ascii cs))"

definition digit :: "16 word \<Rightarrow> bool" where
  "digit c = between CHR ''0'' CHR ''9'' c"

definition alnum :: "16 word \<Rightarrow> bool" where
  "alnum c = (between CHR ''a'' CHR ''z'' c \<or> between CHR ''A'' CHR ''Z'' c \<or> digit c)"

definition param :: "16 word \<Rightarrow> bool" where
  \<comment> \<open>\<^verbatim>\<open>[-a-zA-Z\d\/#&.:=?%@~_]\<close>\<close>
  "param c = (alnum c \<or> one_of ''-/#&.:=?%@~_'' c)"

definition final :: "16 word \<Rightarrow> bool" where
  \<comment> \<open>\<^verbatim>\<open>[\dA-PR-TZcf-ntqry=><~]\<close>\<close>
  "final c = (digit c \<or> between CHR ''A'' CHR ''P'' c \<or> between CHR ''R'' CHR ''T'' c
              \<or> between CHR ''f'' CHR ''n'' c \<or> one_of ''Zctqry=><~'' c)"

definition introducer :: "16 word \<Rightarrow> bool" where
  "introducer c = (c = ESC \<or> c = CSI)"

definition ansi_bel :: rx where
  \<comment> \<open>\<^verbatim>\<open>(?:(?:;[-a-zA-Z\d\/#&.:=?%@~_]+)*|[a-zA-Z\d]+(?:;[-a-zA-Z\d\/#&.:=?%@~_]*)*)?\u0007\<close>\<close>
  "ansi_bel =
     Seq (opt (Alt (star (Seq (chr (ord CHR '';'')) (plus (Cls param))))
                   (Seq (plus (Cls alnum))
                        (star (Seq (chr (ord CHR '';'')) (star (Cls param)))))))
         (chr BEL)"

definition ansi_final :: rx where
  \<comment> \<open>\<^verbatim>\<open>(?:\d{1,4}(?:;\d{0,4})*)?[\dA-PR-TZcf-ntqry=><~]\<close>\<close>
  "ansi_final =
     Seq (opt (Seq (Rep 1 (Some 4) (Cls digit))
                   (star (Seq (chr (ord CHR '';'')) (Rep 0 (Some 4) (Cls digit))))))
         (Cls final)"

definition ansiRegex :: rx where
  \<comment> \<open>the pattern of \<^verbatim>\<open>ansi-regex\<close> 6.0:
      \<^verbatim>\<open>[\u001B\u009B][[\]()#;?]*(?:(?:(?:(?:;[-a-zA-Z\d\/#&.:=?%@~_]+)*|[a-zA-Z\d]+(?:;[-a-zA-Z\d\/#&.:=?%@~_]*)*)?\u0007)|(?:(?:\d{1,4}(?:;\d{0,4})*)?[\dA-PR-TZcf-ntqry=><~]))\<close>\<close>
  "ansiRegex =
     Seq (Cls introducer) (Seq (star (Cls (one_of ''[]()#;?''))) (Alt ansi_bel ansi_final))"

definition stripAnsi :: "jsstring \<Rightarrow> jsstring" where
  "stripAnsi s = replace_all ansiRegex [] s"

definition wide :: "16 word \<Rightarrow> bool" where
  "wide c = (c \<ge> 0x1100 \<and>
      (c \<le> 0x115f \<or> c = 0x2329 \<or> c = 0x232a
       \<or> (c \<ge> 0x2e80 \<and> c \<le> 0xa4cf \<and> c \<noteq> 0x303f)
       \<or> (c \<ge> 0xac00 \<and> c \<le> 0xd7a3)
       \<or> (c \<ge> 0xf900 \<and> c \<le> 0xfaff)
       \<or> (c \<ge> 0xfe10 \<and> c \<le> 0xfe19)
       \<or> (c \<ge> 0xfe30 \<and> c \<le> 0xfe6f)
       \<or> (c \<ge> 0xff00 \<and> c \<le> 0xff60)
       \<or> (c \<ge> 0xffe0 \<and> c \<le> 0xffe6)))"

definition cwidth :: "env \<Rightarrow> 16 word \<Rightarrow> nat" where
  \<comment> \<open>the columns of one code unit: none for NUL, a control character or a combining
      character, two for an East Asian wide character, one otherwise\<close>
  "cwidth env c =
     (if c = 0 then 0
      else if c < 32 \<or> (0x7f \<le> c \<and> c < 0xa0) then 0
      else if combining env c then 0
      else if wide c then 2 else 1)"

definition wcwidth :: "env \<Rightarrow> jsstring \<Rightarrow> nat" where
  "wcwidth env s = sum_list (map (cwidth env) s)"

definition csi :: "string \<Rightarrow> jsstring" where
  \<comment> \<open>\<^verbatim>\<open>`\x1b[${code}m`\<close>\<close>
  "csi code = ESC # ascii ''['' @ ascii code @ ascii ''m''"

definition kleur_codes :: "(string \<times> string \<times> string) list" where
  "kleur_codes =
     [(''reset'', ''0'', ''0''), (''bold'', ''1'', ''22''), (''dim'', ''2'', ''22''),
      (''italic'', ''3'', ''23''), (''underline'', ''4'', ''24''), (''inverse'', ''7'', ''27''),
      (''hidden'', ''8'', ''28''), (''strikethrough'', ''9'', ''29''),
      (''black'', ''30'', ''39''), (''red'', ''31'', ''39''), (''green'', ''32'', ''39''),
      (''yellow'', ''33'', ''39''), (''blue'', ''34'', ''39''), (''magenta'', ''35'', ''39''),
      (''cyan'', ''36'', ''39''), (''white'', ''37'', ''39''), (''gray'', ''90'', ''39''),
      (''grey'', ''90'', ''39''),
      (''bgBlack'', ''40'', ''49''), (''bgRed'', ''41'', ''49''), (''bgGreen'', ''42'', ''49''),
      (''bgYellow'', ''43'', ''49''), (''bgBlue'', ''44'', ''49''), (''bgMagenta'', ''45'', ''49''),
      (''bgCyan'', ''46'', ''49''), (''bgWhite'', ''47'', ''49'')]"




definition kleur :: "env \<Rightarrow> jsstring \<Rightarrow> jsstring option \<Rightarrow> jsstring outcome" where
  \<comment> \<open>\<^verbatim>\<open>kleur[name](txt)\<close>. A name outside the table is not a function of \<^verbatim>\<open>kleur\<close> and the
      call throws (the members \<^verbatim>\<open>kleur\<close> inherits from \<^verbatim>\<open>Object.prototype\<close> are not
      modelled). Called on \<^verbatim>\<open>undefined\<close>, a color returns its chaining object.\<close>
  "kleur env name txt =
     (case map_of (map (\<lambda>(k, v). (ascii k, v)) kleur_codes) name of
        None \<Rightarrow> Throws (TypeError ''kleur[this.color] is not a function'')
      | Some (opn, cls) \<Rightarrow>
          (case txt of
             None \<Rightarrow> Returns (ascii ''[object Object]'')
           | Some t \<Rightarrow>
               Returns (if colors env
                        then csi opn @ replace_all (lit (csi cls)) (csi cls @ csi opn) t @ csi cls
                        else t)))"

section \<open>The line renderer\<close>

definition nextFrame :: "jsstring option \<Rightarrow> spinner \<Rightarrow> (jsstring option) outcome \<times> spinner" where
  \<comment> \<open>lines 201 to 209 of \<^verbatim>\<open>lineToRender\<close>: the glyph, and the frame index moved on\<close>
  "nextFrame symbol sp =
     (case symbol of
        None \<Rightarrow>
          (case symSpinner sp of
             None \<Rightarrow> (Throws (TypeError ''Cannot destructure property frames of undefined''), sp)
           | Some fs \<Rightarrow>
               (Returns (if frameIndex sp < length (frames fs)
                         then Some (frames fs ! frameIndex sp) else None),
                sp\<lparr>frameIndex :=
                     (if frameIndex sp + 1 < length (frames fs) then frameIndex sp + 1 else 0)\<rparr>))
      | Some s \<Rightarrow> (Returns (Some s), sp))"

definition paint :: "env \<Rightarrow> jsstring option \<Rightarrow> jsstring option \<Rightarrow> jsstring outcome" where
  \<comment> \<open>lines 211 to 213, and the conversion of the glyph by the template of line 214\<close>
  "paint env color frame =
     (case color of
        None \<Rightarrow> Returns (case frame of None \<Rightarrow> ascii ''undefined'' | Some f \<Rightarrow> f)
      | Some c \<Rightarrow> kleur env c frame)"

partial_function (option) settle :: "jsstring \<Rightarrow> nat \<Rightarrow> nat \<Rightarrow> (jsstring list) option" where
  \<comment> \<open>the loop of lines 218 to 225; its result is \<open>regexArray\<close>, whose length is \<open>count\<close>\<close>
  "settle defaultRaw terminalCol count =
     (let regexArray = match_all ansiRegex (take (terminalCol + count) defaultRaw)
      in if length regexArray = count then Some regexArray
         else settle defaultRaw terminalCol (length regexArray))"

declare settle.simps [code]

definition reset_seq :: jsstring where
  "reset_seq = csi ''0''"

definition fit :: "env \<Rightarrow> jsstring \<Rightarrow> jsstring outcome" where
  \<comment> \<open>lines 216 to 232\<close>
  "fit env defaultRaw =
     (let terminalCol = columns env in
      case settle defaultRaw terminalCol 0 of
        None \<Rightarrow> Hangs
      | Some regexArray \<Rightarrow>
          let count = length regexArray + sum_list (map (wcwidth env) regexArray)
          in if wcwidth env (stripAnsi defaultRaw) > terminalCol
             then Returns (take (terminalCol + count) defaultRaw @ reset_seq)
             else Returns defaultRaw)"

definition lineToRender :: "env \<Rightarrow> jsstring option \<Rightarrow> spinner \<Rightarrow> jsstring outcome \<times> spinner" where
  "lineToRender env symbol sp =
     (case nextFrame symbol sp of
        (Throws e, sp') \<Rightarrow> (Throws e, sp')
      | (Hangs, sp') \<Rightarrow> (Hangs, sp')
      | (Returns frame, sp') \<Rightarrow>
          (case paint env (symColor sp') frame of
             Throws e \<Rightarrow> (Throws e, sp')
           | Hangs \<Rightarrow> (Hangs, sp')
           | Returns painted \<Rightarrow>
               (fit env (painted @ ascii '' '' @ symPrefixText sp' @ symText sp'), sp')))"

section \<open>The spinner property\<close>

datatype spinner_src =
    SrcObject "jsstring list option" "nat option"
  | SrcName jsstring
  | SrcAbsent
  | SrcOther

text \<open>
  What can be assigned to \<open>spinner\<close>: a plain object, with its \<open>frames\<close> and \<open>interval\<close>
  (\<open>None\<close> where the property is \<^verbatim>\<open>null\<close> or \<^verbatim>\<open>undefined\<close>), a string, \<^verbatim>\<open>null\<close> or
  \<^verbatim>\<open>undefined\<close>, or anything else.
\<close>

definition DEFAULT_SPINNER :: jsstring where
  "DEFAULT_SPINNER = ascii ''dots''"

definition spinner_set :: "env \<Rightarrow> spinner_src \<Rightarrow> spinner \<Rightarrow> spinner outcome" where
  "spinner_set env v sp =
     (case v of
        SrcObject fr iv \<Rightarrow>
          (case fr of
             None \<Rightarrow> Throws (Error ''Spinner object must have a frames property'')
           | Some f \<Rightarrow>
               (case iv of
                  None \<Rightarrow> Throws (Error ''Spinner object must have an interval property'')
                | Some i \<Rightarrow>
                    Returns (sp\<lparr>symSpinner := Some \<lparr>frames = f, interval = i\<rparr>,
                                frameIndex := 0\<rparr>)))
      | SrcName n \<Rightarrow>
          (case cliSpinners env n of
             Some fs \<Rightarrow> Returns (sp\<lparr>symSpinner := Some fs, frameIndex := 0\<rparr>)
           | None \<Rightarrow> Throws (Error ''There is no built-in spinner with this name''))
      | SrcAbsent \<Rightarrow>
          Returns (sp\<lparr>symSpinner := cliSpinners env DEFAULT_SPINNER, frameIndex := 0\<rparr>)
      | SrcOther \<Rightarrow> Throws (TypeError ''spinner must be a type of string|object|undefined''))"

section \<open>Instances, the running counter and the terminal\<close>

type_synonym ref = nat

datatype termop =
    MoveCursor int "int option"
  | ClearLine
  | Write jsstring
  | Log jsstring
  | Err jsstring
  | CursorHide
  | CursorShow

text \<open>
  What the program does to the terminal, in order: \<^verbatim>\<open>readline.moveCursor\<close> (a vertical
  offset of \<open>None\<close> is \<^verbatim>\<open>NaN\<close>), \<^verbatim>\<open>readline.clearLine\<close>, \<^verbatim>\<open>stream.write\<close>,
  \<^verbatim>\<open>console.log\<close>, \<^verbatim>\<open>console.error\<close> and the two calls of \<^verbatim>\<open>cli-cursor\<close>.
\<close>

datatype lifecycle = EvStart | EvSucceed | EvFailed

record world =
  count :: nat
  heap :: "ref \<Rightarrow> spinner option"
  next_ref :: ref
  microtasks :: "ref list"
  immediates :: nat
  emitted :: "lifecycle list"
  trace :: "termop list"

text \<open>
  \<open>count\<close> is \<^verbatim>\<open>Spinner.count\<close>. \<open>microtasks\<close> holds, in order, the instances whose
  \<^verbatim>\<open>once(this.emitter, "start")\<close> promise has resolved and whose \<^verbatim>\<open>then\<close> callback
  (lines 61 to 64) has not run yet; \<open>immediates\<close> counts the callbacks of line 271 that
  are scheduled; \<open>emitted\<close> lists the events sent on \<^verbatim>\<open>Spinner.emitter\<close>.
\<close>

record options =
  opt_spinner :: spinner_src
  opt_prefixText :: jsval
  opt_text :: jsval
  opt_color :: jsval
  opt_verbose :: jsval

definition blank :: "bool \<Rightarrow> spinner" where
  "blank v = \<lparr>verbose = v, symSpinner = None, symPrefixText = [], symText = [],
              symColor = None, started = False, frameIndex = 0, spinnerPos = None,
              listening = False, timers = 0, handle = False\<rparr>"

definition configure :: "env \<Rightarrow> options \<Rightarrow> spinner outcome" where
  \<comment> \<open>the constructor, lines 46 to 65, on the new object\<close>
  "configure env opts =
     (let v = (case opt_verbose opts of JBool b \<Rightarrow> b | _ \<Rightarrow> True) in
      if \<not> v then Returns (blank v)
      else
        (case spinner_set env (opt_spinner opts) (blank v) of
           Throws e \<Rightarrow> Throws e
         | Hangs \<Rightarrow> Hangs
         | Returns sp1 \<Rightarrow>
             (case text_set (case opt_text opts of JStr s \<Rightarrow> JStr s | _ \<Rightarrow> JStr [])
                     (prefixText_set (opt_prefixText opts) sp1) of
                Throws e \<Rightarrow> Throws e
              | Hangs \<Rightarrow> Hangs
              | Returns sp2 \<Rightarrow>
                  (case color_set (opt_color opts) sp2 of
                     Throws e \<Rightarrow> Throws e
                   | Hangs \<Rightarrow> Hangs
                   | Returns sp3 \<Rightarrow> Returns (sp3\<lparr>started := False, listening := True\<rparr>)))))"

definition new_spinner :: "env \<Rightarrow> options \<Rightarrow> world \<Rightarrow> ref outcome \<times> world" where
  "new_spinner env opts w =
     (case configure env opts of
        Throws e \<Rightarrow> (Throws e, w)
      | Hangs \<Rightarrow> (Hangs, w)
      | Returns sp \<Rightarrow>
          (Returns (next_ref w),
           w\<lparr>heap := (heap w)(next_ref w := Some sp), next_ref := Suc (next_ref w)\<rparr>))"

definition text_override :: "jsval \<Rightarrow> spinner \<Rightarrow> spinner outcome" where
  \<comment> \<open>\<^verbatim>\<open>if (!is.nullOrUndefined(text)) { this.text = text; }\<close>\<close>
  "text_override v sp = (if nullOrUndefined v then Returns sp else text_set v sp)"

definition put :: "ref \<Rightarrow> spinner \<Rightarrow> world \<Rightarrow> world" where
  "put r sp w = w\<lparr>heap := (heap w)(r := Some sp)\<rparr>"

definition no_instance :: error where
  "no_instance = TypeError ''not a Spinner instance''"

definition start :: "env \<Rightarrow> ref \<Rightarrow> jsval \<Rightarrow> world \<Rightarrow> unit outcome \<times> world" where
  "start env r v w =
     (case heap w r of
        None \<Rightarrow> (Throws no_instance, w)
      | Some sp \<Rightarrow>
          if \<not> verbose sp then (Returns (), w)
          else
            (case text_override v sp of
               Throws e \<Rightarrow> (Throws e, w)
             | Hangs \<Rightarrow> (Hangs, w)
             | Returns sp1 \<Rightarrow>
                 let sp2 = sp1\<lparr>started := True, listening := False\<rparr>;
                     w1 = w\<lparr>microtasks := (if listening sp1 then microtasks w @ [r]
                                             else microtasks w),
                            immediates := Suc (immediates w)\<rparr>;
                     (line, sp3) = lineToRender env None (sp2\<lparr>frameIndex := 0\<rparr>)
                 in (case line of
                       Throws e \<Rightarrow> (Throws e, put r sp3 w1)
                     | Hangs \<Rightarrow> (Hangs, put r sp3 w1)
                     | Returns l \<Rightarrow>
                         (Returns (),
                          put r (sp3\<lparr>timers := Suc (timers sp3), handle := True\<rparr>)
                            (w1\<lparr>trace := trace w1 @ [Log l]\<rparr>)))))"

definition stop_instance :: "jsval \<Rightarrow> spinner \<Rightarrow> spinner outcome" where
  \<comment> \<open>\<^verbatim>\<open>stop\<close>, lines 288 to 298\<close>
  "stop_instance v sp =
     (if \<not> verbose sp \<or> \<not> started sp then Returns sp
      else
        (case text_override v sp of
           Throws e \<Rightarrow> Throws e
         | Hangs \<Rightarrow> Hangs
         | Returns sp1 \<Rightarrow>
             Returns (sp1\<lparr>started := False,
                          timers := (if handle sp1 then timers sp1 - 1 else timers sp1),
                          handle := False\<rparr>)))"

definition stop :: "ref \<Rightarrow> jsval \<Rightarrow> world \<Rightarrow> unit outcome \<times> world" where
  "stop r v w =
     (case heap w r of
        None \<Rightarrow> (Throws no_instance, w)
      | Some sp \<Rightarrow>
          (case stop_instance v sp of
             Throws e \<Rightarrow> (Throws e, w)
           | Hangs \<Rightarrow> (Hangs, w)
           | Returns sp1 \<Rightarrow> (Returns (), put r sp1 w)))"

definition renderLine :: "env \<Rightarrow> ref \<Rightarrow> jsstring option \<Rightarrow> world \<Rightarrow> unit outcome \<times> world" where
  "renderLine env r symbol w =
     (case heap w r of
        None \<Rightarrow> (Throws no_instance, w)
      | Some sp \<Rightarrow>
          let moveCursorPos = (case spinnerPos sp of
                                 None \<Rightarrow> None
                               | Some p \<Rightarrow> Some (int (count w) - int p));
              w1 = w\<lparr>trace := trace w @ [MoveCursor 0 (map_option uminus moveCursorPos)]\<rparr>;
              (line, sp1) = lineToRender env symbol sp
          in (case line of
                Throws e \<Rightarrow> (Throws e, put r sp1 w1)
              | Hangs \<Rightarrow> (Hangs, put r sp1 w1)
              | Returns l \<Rightarrow>
                  (Returns (),
                   put r sp1
                     (w1\<lparr>trace := trace w1 @
                            [ClearLine, Write l, MoveCursor (- int (length l)) moveCursorPos]\<rparr>))))"

definition finish :: "env \<Rightarrow> jsstring \<Rightarrow> lifecycle \<Rightarrow> ref \<Rightarrow> jsval \<Rightarrow> world \<Rightarrow> unit outcome \<times> world" where
  \<comment> \<open>the common body of \<^verbatim>\<open>succeed\<close> and \<^verbatim>\<open>failed\<close>\<close>
  "finish env glyph ev r v w =
     (case heap w r of
        None \<Rightarrow> (Throws no_instance, w)
      | Some sp \<Rightarrow>
          if \<not> verbose sp then (Returns (), w)
          else
            (case stop r v w of
               (Throws e, w1) \<Rightarrow> (Throws e, w1)
             | (Hangs, w1) \<Rightarrow> (Hangs, w1)
             | (Returns u, w1) \<Rightarrow>
                 (case renderLine env r (Some glyph) w1 of
                    (Throws e, w2) \<Rightarrow> (Throws e, w2)
                  | (Hangs, w2) \<Rightarrow> (Hangs, w2)
                  | (Returns u, w2) \<Rightarrow> (Returns (), w2\<lparr>emitted := emitted w2 @ [ev]\<rparr>))))"

definition succeed :: "env \<Rightarrow> ref \<Rightarrow> jsval \<Rightarrow> world \<Rightarrow> unit outcome \<times> world" where
  "succeed env r v w = finish env (logSuccess env) EvSucceed r v w"

definition failed :: "env \<Rightarrow> ref \<Rightarrow> jsval \<Rightarrow> world \<Rightarrow> unit outcome \<times> world" where
  "failed env r v w = finish env (logError env) EvFailed r v w"

fun run_microtasks :: "ref list \<Rightarrow> world \<Rightarrow> world" where
  \<comment> \<open>the callbacks of lines 61 to 64, in the order their promises resolved\<close>
  "run_microtasks [] w = w"
| "run_microtasks (r # rs) w =
     run_microtasks rs
       (case heap w r of
          None \<Rightarrow> w
        | Some sp \<Rightarrow> (put r (sp\<lparr>spinnerPos := Some (count w)\<rparr>) w)\<lparr>count := Suc (count w)\<rparr>)"

definition drain :: "world \<Rightarrow> world" where
  "drain w = run_microtasks (microtasks w) (w\<lparr>microtasks := []\<rparr>)"

definition run_immediates :: "world \<Rightarrow> world" where
  "run_immediates w =
     w\<lparr>immediates := 0, emitted := emitted w @ replicate (immediates w) EvStart\<rparr>"

section \<open>The orchestrator\<close>

text \<open>
  A task is an async function, alone or as the first item of an array that carries its
  arguments. Calling an async function never throws: it returns a promise, which
  resolves with a value or rejects with a reason, any value at all. When each task
  settles is not decided by \<^verbatim>\<open>startAll\<close>: the order is an input of the model, the list
  \<open>schedule\<close> of task indices; a task that the list never names never settles. So are
  the \<open>events\<close> that reach the three listeners of lines 393 to 416 before the batch ends.
\<close>

datatype settlement = Resolves jsval | Rejects jsval

datatype callee = AsyncFn "jsval list \<Rightarrow> settlement" | NotAsync

datatype entry = Bare callee | Packed callee "jsval list"

record batch_options =
  recap :: jsval
  rejects :: jsval

datatype 'a promise = Pending | Fulfilled 'a | Rejected error

record report =
  settled :: "jsval list promise"
  invoked :: "nat list"
  printed :: "termop list"
  count_reset :: bool

text \<open>
  \<^verbatim>\<open>startAll\<close> is declared \<^verbatim>\<open>async\<close>: a call returns a promise and whatever its body
  throws rejects that promise. \<open>settled\<close> is the fate of the promise, \<open>invoked\<close> the tasks
  that were called, \<open>printed\<close> what was done to the terminal, and \<open>count_reset\<close> says
  whether line 444 was reached.
\<close>

definition LINE_JUMP :: nat where "LINE_JUMP = 1"

definition recapSetOpt :: "jsval list" where
  "recapSetOpt = [JStr (ascii ''none''), JStr (ascii ''error''), JStr (ascii ''always'')]"

fun check_entries :: "entry list \<Rightarrow> error option" where
  \<comment> \<open>the loop of lines 354 to 366\<close>
  "check_entries [] = None"
| "check_entries (Packed fn args # es) =
     (case fn of
        AsyncFn f \<Rightarrow> check_entries es
      | NotAsync \<Rightarrow>
          Some (TypeError ''The first item of an array in startAll() functions param must be a type of <Function>''))"
| "check_entries (Bare fn # es) =
     (case fn of
        AsyncFn f \<Rightarrow> check_entries es
      | NotAsync \<Rightarrow>
          Some (TypeError ''Item startAll() functions param must be a type of <Function>''))"

definition check_recap :: "batch_options \<Rightarrow> error option" where
  \<comment> \<open>lines 368 to 370\<close>
  "check_recap opts =
     (if \<not> nullOrUndefined (recap opts) \<and> recap opts \<notin> set recapSetOpt
      then Some (Error ''recap option must be none|error|always'') else None)"

definition recapOpt :: "batch_options \<Rightarrow> jsval" where
  "recapOpt opts = (if recap opts \<in> set recapSetOpt then recap opts else JStr (ascii ''always''))"

definition rejectOpt :: "batch_options \<Rightarrow> bool" where
  "rejectOpt opts = (case rejects opts of JBool b \<Rightarrow> b | _ \<Rightarrow> True)"

fun show_nat :: "nat \<Rightarrow> jsstring" where
  "show_nat n = (if n < 10 then [of_nat (48 + n)] else show_nat (n div 10) @ [of_nat (48 + n mod 10)])"

declare show_nat.simps [simp del]

record counters =
  n_started :: nat
  n_finished :: nat
  n_failed :: nat
  recap_on :: bool

definition writeRecap :: "env \<Rightarrow> nat \<Rightarrow> counters \<Rightarrow> termop list" where
  "writeRecap env ntasks cs =
     (let col = columns env;
          recapStr = show_nat (n_finished cs) @ ascii '' / '' @ show_nat ntasks
                     @ ascii '' : with '' @ show_nat (n_failed cs) @ ascii '' failed'';
          displayRecap = (if length recapStr > col then take col recapStr else recapStr)
      in [MoveCursor 0 (Some (int LINE_JUMP)), ClearLine, Write displayRecap,
          MoveCursor (- int (length displayRecap)) (Some (- int LINE_JUMP))])"

definition on_event :: "env \<Rightarrow> nat \<Rightarrow> jsval \<Rightarrow> lifecycle \<Rightarrow> counters \<times> termop list \<Rightarrow> counters \<times> termop list" where
  \<comment> \<open>the three listeners, lines 393 to 416\<close>
  "on_event env ntasks ropt ev st =
     (let (cs, out) = st in
      case ev of
        EvStart \<Rightarrow>
          (let cs1 = cs\<lparr>n_started := Suc (n_started cs)\<rparr> in
           if n_started cs1 = ntasks \<and> recap_on cs1
           then (cs1, out @ [Log (concat (replicate (LINE_JUMP - 1) [LF])),
                              MoveCursor 0 (Some (- int LINE_JUMP))] @ writeRecap env ntasks cs1)
           else (cs1, out))
      | EvSucceed \<Rightarrow>
          (let cs1 = cs\<lparr>n_finished := Suc (n_finished cs)\<rparr> in
           if n_started cs1 = ntasks \<and> recap_on cs1
           then (cs1, out @ writeRecap env ntasks cs1) else (cs1, out))
      | EvFailed \<Rightarrow>
          (let cs1 = cs\<lparr>n_finished := Suc (n_finished cs), n_failed := Suc (n_failed cs),
                         recap_on := (ropt = JStr (ascii ''error'') \<or> ropt = JStr (ascii ''always''))\<rparr> in
           if n_started cs1 = ntasks \<and> recap_on cs1
           then (cs1, out @ writeRecap env ntasks cs1) else (cs1, out)))"

definition invoke :: "entry \<Rightarrow> settlement option" where
  \<comment> \<open>the call of lines 422 to 428; \<open>None\<close> where what is called is not a function of the
      kind the validation lets through\<close>
  "invoke e =
     (case e of
        Packed fn args \<Rightarrow> (case fn of AsyncFn f \<Rightarrow> Some (f args) | NotAsync \<Rightarrow> None)
      | Bare fn \<Rightarrow> (case fn of AsyncFn f \<Rightarrow> Some (f []) | NotAsync \<Rightarrow> None))"

fun join :: "settlement option list \<Rightarrow> nat list \<Rightarrow> jsval option list \<times> jsval list
              \<Rightarrow> jsval option list \<times> jsval list" where
  \<comment> \<open>The promises of line 420 settling in the order \<open>schedule\<close>. A resolved task fills its
      slot with its value; for a rejected one the handler \<^verbatim>\<open>(err) => rejects.push(err)\<close>
      runs, and its promise resolves with what \<^verbatim>\<open>push\<close> returns, the new length of
      \<^verbatim>\<open>rejects\<close>.\<close>
  "join outs [] st = st"
| "join outs (i # schedule) (slots, rejected) =
     (if i < length outs \<and> i < length slots \<and> slots ! i = None
      then (case outs ! i of
              Some (Resolves v) \<Rightarrow> join outs schedule (slots[i := Some v], rejected)
            | Some (Rejects err) \<Rightarrow>
                join outs schedule
                  (slots[i := Some (JNum (int (length (rejected @ [err]))))], rejected @ [err])
            | None \<Rightarrow> join outs schedule (slots, rejected))
      else join outs schedule (slots, rejected))"

definition stack_text :: "jsval \<Rightarrow> error + jsstring" where
  \<comment> \<open>\<^verbatim>\<open>`\n${reject.stack}`\<close>: reading a property of \<^verbatim>\<open>null\<close> or \<^verbatim>\<open>undefined\<close> throws; a
      value without the property gives \<^verbatim>\<open>undefined\<close>\<close>
  "stack_text v =
     (case v of
        JUndefined \<Rightarrow> Inl (TypeError ''Cannot read properties of undefined (reading stack)'')
      | JNull \<Rightarrow> Inl (TypeError ''Cannot read properties of null (reading stack)'')
      | JError st \<Rightarrow> Inr (LF # st)
      | _ \<Rightarrow> Inr (LF # ascii ''undefined''))"

fun print_rejects :: "jsval list \<Rightarrow> termop list \<Rightarrow> error option \<times> termop list" where
  \<comment> \<open>the loop of lines 439 to 441\<close>
  "print_rejects [] out = (None, out)"
| "print_rejects (reject # rs) out =
     (case stack_text reject of
        Inl e \<Rightarrow> (Some e, out)
      | Inr line \<Rightarrow> print_rejects rs (out @ [Err line]))"

definition startAll :: "env \<Rightarrow> entry list option \<Rightarrow> batch_options \<Rightarrow> lifecycle list \<Rightarrow> nat list \<Rightarrow> report" where
  "startAll env functions opts events schedule =
     (case functions of
        None \<Rightarrow>
          \<lparr>settled = Rejected (TypeError ''functions param must be a type of <array>''),
           invoked = [], printed = [], count_reset = False\<rparr>
      | Some fns \<Rightarrow>
          (case check_entries fns of
             Some e \<Rightarrow> \<lparr>settled = Rejected e, invoked = [], printed = [], count_reset = False\<rparr>
           | None \<Rightarrow>
               (case check_recap opts of
                  Some e \<Rightarrow> \<lparr>settled = Rejected e, invoked = [], printed = [], count_reset = False\<rparr>
                | None \<Rightarrow>
                    let ntasks = length fns;
                        cs0 = \<lparr>n_started = 0, n_finished = 0, n_failed = 0,
                               recap_on = (recapOpt opts = JStr (ascii ''always''))\<rparr>;
                        (slots, rejected) =
                          join (map invoke fns) schedule (replicate ntasks None, []);
                        (cs, out1) = fold (on_event env ntasks (recapOpt opts)) events (cs0, [CursorHide])
                    in if None \<in> set slots
                       then \<lparr>settled = Pending, invoked = [0..<ntasks], printed = out1,
                             count_reset = False\<rparr>
                       else
                         let results = map the slots;
                             out2 = (if recap_on cs
                                     then out1 @ writeRecap env ntasks cs
                                          @ [MoveCursor 0 (Some (int LINE_JUMP + 1))]
                                     else out1)
                         in if rejectOpt opts \<and> length rejected > 0
                            then (case print_rejects rejected out2 of
                                    (Some e, out3) \<Rightarrow>
                                      \<lparr>settled = Rejected e, invoked = [0..<ntasks],
                                       printed = out3, count_reset = False\<rparr>
                                  | (None, out3) \<Rightarrow>
                                      \<lparr>settled = Fulfilled results, invoked = [0..<ntasks],
                                       printed = out3 @ [CursorShow], count_reset = True\<rparr>)
                            else \<lparr>settled = Fulfilled results, invoked = [0..<ntasks],
                                  printed = out2 @ [CursorShow], count_reset = True\<rparr>)))"

definition aligned :: "settlement option list \<Rightarrow> nat \<Rightarrow> jsval option list \<Rightarrow> bool" where
  \<comment> \<open>what the slots of the join hold while it runs, \<open>n\<close> rejections so far: nothing yet,
      the value of a resolved task, or for a rejected task a number from 1 to \<open>n\<close>\<close>
  "aligned outs n slots =
     (length slots = length outs \<and>
      (\<forall>i < length outs.
         case slots ! i of
           None \<Rightarrow> True
         | Some x \<Rightarrow>
             (case outs ! i of
                Some (Resolves v) \<Rightarrow> x = v
              | Some (Rejects e) \<Rightarrow> (\<exists>k. x = JNum (int k) \<and> 0 < k \<and> k \<le> n)
              | None \<Rightarrow> False)))"

definition diagnostics :: "termop list \<Rightarrow> jsstring list" where
  \<comment> \<open>what was written with \<^verbatim>\<open>console.error\<close>, in order\<close>
  "diagnostics ops = concat (map (\<lambda>x. case x of Err l \<Rightarrow> [l] | _ \<Rightarrow> []) ops)"

definition create :: "callee \<Rightarrow> jsval list \<Rightarrow> entry outcome" where
  \<comment> \<open>\<^verbatim>\<open>Spinner.create\<close>\<close>
  "create fn args =
     (case fn of
        NotAsync \<Rightarrow> Throws (TypeError ''fn param must be an Asynchronous Function'')
      | AsyncFn f \<Rightarrow> Returns (if length args > 0 then Packed fn args else Bare fn))"

section \<open>Runs of the program\<close>

text \<open>
  Everything the class lets a program do to its instances, one step at a time. Between
  two steps the callbacks that are waiting may run (\<open>Microtasks\<close>, \<open>Immediates\<close>), a
  timer of an instance may fire (\<open>Tick\<close>), and a batch may end (\<open>BatchEnd\<close>, line 444).
  A step that throws leaves the world as it was when the exception left the method.
\<close>

datatype action =
    New options
  | Start ref jsval
  | Stop ref jsval
  | Succeed ref jsval
  | Failed ref jsval
  | Tick ref
  | SetText ref jsval
  | SetPrefixText ref jsval
  | SetColor ref jsval
  | SetSpinner ref spinner_src
  | Microtasks
  | Immediates
  | BatchEnd

definition assign :: "ref \<Rightarrow> (spinner \<Rightarrow> spinner outcome) \<Rightarrow> world \<Rightarrow> world" where
  "assign r f w =
     (case heap w r of
        None \<Rightarrow> w
      | Some sp \<Rightarrow> (case f sp of Returns sp' \<Rightarrow> put r sp' w | _ \<Rightarrow> w))"

fun exec :: "env \<Rightarrow> action \<Rightarrow> world \<Rightarrow> world" where
  "exec env (New opts) w = snd (new_spinner env opts w)"
| "exec env (Start r v) w = snd (start env r v w)"
| "exec env (Stop r v) w = snd (stop r v w)"
| "exec env (Succeed r v) w = snd (succeed env r v w)"
| "exec env (Failed r v) w = snd (failed env r v w)"
| "exec env (Tick r) w = snd (renderLine env r None w)"
| "exec env (SetText r v) w = assign r (text_set v) w"
| "exec env (SetPrefixText r v) w = assign r (\<lambda>sp. Returns (prefixText_set v sp)) w"
| "exec env (SetColor r v) w = assign r (color_set v) w"
| "exec env (SetSpinner r v) w = assign r (spinner_set env v) w"
| "exec env Microtasks w = drain w"
| "exec env Immediates w = run_immediates w"
| "exec env BatchEnd w = w\<lparr>count := 0\<rparr>"

definition run :: "env \<Rightarrow> action list \<Rightarrow> world \<Rightarrow> world" where
  "run env acts w = fold (exec env) acts w"

definition positioned :: "ref \<Rightarrow> nat \<Rightarrow> world \<Rightarrow> bool" where
  \<comment> \<open>instance \<open>r\<close> exists with stack position \<open>p\<close>, its listener of line 61 has fired and
      the callback of that listener is no longer waiting\<close>
  "positioned r p w =
     (r < next_ref w \<and> r \<notin> set (microtasks w) \<and>
      (\<exists>sp. heap w r = Some sp \<and> spinnerPos sp = Some p \<and> \<not> listening sp))"


section \<open>What a terminal shows of a line\<close>


fun hit_spans :: "nat \<Rightarrow> piece list \<Rightarrow> (nat \<times> nat) list" where
  "hit_spans i [] = []"
| "hit_spans i (Lit c # ps) = hit_spans (Suc i) ps"
| "hit_spans i (Hit m # ps) = (i, i + length m) # hit_spans (i + length m) ps"

definition cuts_sequence :: "jsstring \<Rightarrow> nat \<Rightarrow> bool" where
  \<comment> \<open>a cut after \<open>k\<close> code units falls strictly inside an escape sequence of \<open>s\<close>\<close>
  "cuts_sequence s k = list_ex (\<lambda>(a, b). a < k \<and> k < b) (hit_spans 0 (scan ansiRegex s))"

definition part :: "jsstring \<Rightarrow> nat \<Rightarrow> piece list" where
  \<comment> \<open>how the first \<open>j\<close> code units of a color sequence scan: from three units on they
      are an escape sequence of their own\<close>
  "part s j = (if 3 \<le> j then [Hit (take j s)] else map Lit (take j s))"

section \<open>A terminal for the examples\<close>

definition dots :: frameset where
  \<comment> \<open>the preset \<^verbatim>\<open>dots\<close> of \<^verbatim>\<open>cli-spinners\<close>\<close>
  "dots = \<lparr>frames = [[0x280B], [0x2819], [0x2839], [0x2838], [0x283C],
                      [0x2834], [0x2826], [0x2827], [0x2807], [0x280F]],
           interval = 80\<rparr>"

definition sample_env :: "nat \<Rightarrow> env" where
  \<comment> \<open>a terminal of \<open>w\<close> columns with colors on; of the two tables, the preset \<^verbatim>\<open>dots\<close> and
      the first range of combining characters\<close>
  "sample_env w =
     \<lparr>columns = w, colors = True,
      combining = (\<lambda>c. 0x0300 \<le> c \<and> c \<le> 0x036F),
      cliSpinners = (\<lambda>n. if n = ascii ''dots'' then Some dots else None),
      logSuccess = [0x2714], logError = [0x2716]\<rparr>"

definition sample_spinner :: spinner where
  \<comment> \<open>what \<^verbatim>\<open>new Spinner({ text: "loading" })\<close> builds on that terminal\<close>
  "sample_spinner = (blank True)\<lparr>symSpinner := Some dots, symText := ascii ''loading'',
                                   listening := True\<rparr>"

definition sample_world :: "spinner \<Rightarrow> world" where
  \<comment> \<open>one instance, at reference 0, and nothing else\<close>
  "sample_world sp =
     \<lparr>count = 0, heap = (\<lambda>r. if r = 0 then Some sp else None), next_ref = 1,
      microtasks = [], immediates = 0, emitted = [], trace = []\<rparr>"

section \<open>The setters\<close>

lemmas rx_eval = linebreak_def match_at_def chr_def opt_def star_def plus_def
  LF_def CR_def ESC_def CSI_def BEL_def

lemma linebreak_at:
  "match_at linebreak (c # cs) =
     (if c = CR then (case cs of d # ds \<Rightarrow> if d = LF then Some 2 else Some 1 | [] \<Rightarrow> Some 1)
      else if c = LF then Some 1 else None)"
  by (auto simp: rx_eval split: list.splits)

lemma replace_first_no_break:
  "\<forall>c \<in> set s. c \<noteq> CR \<and> c \<noteq> LF \<Longrightarrow> replace_first linebreak [] s = s"
proof (induction s)
  case Nil
  show ?case by (simp add: rx_eval)
next
  case (Cons c s)
  then show ?case by (simp add: linebreak_at)
qed

lemma replace_first_break:
  assumes "\<forall>c \<in> set a. c \<noteq> CR \<and> c \<noteq> LF"
  shows "replace_first linebreak [] (a @ LF # b) = a @ b"
    and "replace_first linebreak [] (a @ CR # LF # b) = a @ b"
  using assms by (induction a) (simp_all add: linebreak_at LF_def CR_def)

text \<open>
  So a text without a line break is stored as it is, and of a text with line breaks the
  first one is taken out and the rest of the text is stored untouched.
\<close>

text \<open>
  Claim C3 at the text \<^verbatim>\<open>"a\nb\nc"\<close>: the regular expression of the setter has no \<^verbatim>\<open>g\<close>
  flag, so only the first line break goes, and the text read back is \<^verbatim>\<open>"ab\nc"\<close>.
\<close>

theorem text_set_two_breaks:
  "text_set (JStr (ascii ''a'' @ [LF] @ ascii ''b'' @ [LF] @ ascii ''c'')) sp
     = Returns (sp\<lparr>symText := ascii ''ab'' @ [LF] @ ascii ''c''\<rparr>)
   \<and> text_get (sp\<lparr>symText := ascii ''ab'' @ [LF] @ ascii ''c''\<rparr>) = ascii ''ab'' @ [LF] @ ascii ''c''
   \<and> LF \<in> set (ascii ''ab'' @ [LF] @ ascii ''c'')"
  by (simp add: text_set_def text_get_def rx_eval ascii_def)

text \<open>
  Claim C8, as the code has it: the setter of \<open>color\<close> looks at the type only. It accepts
  every string, \<^verbatim>\<open>null\<close> and \<^verbatim>\<open>undefined\<close>, throws for every other value, and stores a
  string as it is, whether or not it names a color.
\<close>

theorem color_set_accepts:
  "(\<exists>sp'. color_set v sp = Returns sp') = ((\<exists>s. v = JStr s) \<or> nullOrUndefined v)
   \<and> color_set (JStr s) sp = Returns (sp\<lparr>symColor := Some s\<rparr>)"
  by (cases v) (simp_all add: color_set_def nullOrUndefined_def)

text \<open>
  Claim C8 as it is stated fails: \<^verbatim>\<open>"notacolor"\<close> is accepted by the setter, and the error
  comes from the next render.
\<close>

theorem color_set_unknown_name:
  "color_set (JStr (ascii ''notacolor'')) (blank True)
     = Returns ((blank True)\<lparr>symColor := Some (ascii ''notacolor'')\<rparr>)
   \<and> fst (lineToRender (sample_env 80) (Some (ascii ''x''))
            ((blank True)\<lparr>symColor := Some (ascii ''notacolor'')\<rparr>))
     = Throws (TypeError ''kleur[this.color] is not a function'')"
  by code_simp

text \<open>
  Claim C9, as the code has it: the separator follows every assigned string, the empty
  one too, after the first line break of the string is taken out; a value that is not a
  string gives the empty prefix.
\<close>

theorem prefixText_separator:
  "prefixText_get (prefixText_set (JStr s) sp) = replace_first linebreak [] s @ ascii '' - ''
   \<and> ((\<forall>s. v \<noteq> JStr s) \<longrightarrow> prefixText_get (prefixText_set v sp) = [])"
  by (cases v) (simp_all add: prefixText_get_def prefixText_set_def)

theorem prefixText_separator_witness:
  "(\<forall>s. JUndefined \<noteq> JStr s) \<and> prefixText_get (prefixText_set JUndefined (blank True)) = []"
  using prefixText_separator [of "[]" "blank True" JUndefined] by simp

text \<open>
  Claim C9 as it is stated fails: the empty string is given the separator too.
\<close>

theorem prefixText_empty_string:
  "prefixText_get (prefixText_set (JStr []) (blank True)) = ascii '' - ''"
  by (simp add: prefixText_get_def prefixText_set_def rx_eval)

section \<open>The orchestrator: results, failures and options\<close>

lemmas batch_eval = startAll_def check_recap_def recapOpt_def rejectOpt_def recapSetOpt_def
  nullOrUndefined_def invoke_def stack_text_def

lemma join_length: "length (fst (join outs sch st)) = length (fst st)"
  by (induction outs sch st rule: join.induct) (auto split: option.splits settlement.splits)

lemma aligned_mono: "aligned outs n slots \<Longrightarrow> n \<le> m \<Longrightarrow> aligned outs m slots"
  unfolding aligned_def
  by (auto split: option.splits settlement.splits) (metis le_trans)

lemma aligned_resolve:
  "aligned outs n slots \<Longrightarrow> i < length outs \<Longrightarrow> outs ! i = Some (Resolves v)
   \<Longrightarrow> aligned outs n (slots[i := Some v])"
  unfolding aligned_def by (auto simp: nth_list_update split: option.splits settlement.splits)

lemma aligned_reject:
  "aligned outs n slots \<Longrightarrow> i < length outs \<Longrightarrow> outs ! i = Some (Rejects e)
   \<Longrightarrow> aligned outs (Suc n) (slots[i := Some (JNum (int (Suc n)))])"
proof -
  assume a: "aligned outs n slots" and i: "i < length outs" and o: "outs ! i = Some (Rejects e)"
  from a have "aligned outs (Suc n) slots" by (rule aligned_mono) simp
  with i o show ?thesis
    unfolding aligned_def
    by (auto simp: nth_list_update intro: exI[of _ "Suc n"] split: option.splits settlement.splits)
qed

lemma join_aligned:
  "aligned outs (length rej) slots \<Longrightarrow> join outs sch (slots, rej) = (slots', rej')
   \<Longrightarrow> aligned outs (length rej') slots'"
proof (induction outs sch "(slots, rej)" arbitrary: slots rej rule: join.induct)
  case (1 outs)
  then show ?case by simp
next
  case (2 outs i schedule slots rej)
  note hyps = "2.hyps" and al = "2.prems"(1) and j = "2.prems"(2)
  show ?case
  proof (cases "i < length outs \<and> i < length slots \<and> slots ! i = None")
    case False
    with hyps(4) al j show ?thesis by auto
  next
    case True
    show ?thesis
    proof (cases "outs ! i")
      case None
      with True hyps(1) al j show ?thesis by auto
    next
      case (Some st)
      show ?thesis
      proof (cases st)
        case (Resolves v)
        have "aligned outs (length rej) (slots[i := Some v])"
          using al True Some Resolves by (simp add: aligned_resolve)
        moreover have "join outs schedule (slots[i := Some v], rej) = (slots', rej')"
          using j True Some Resolves by simp
        ultimately show ?thesis using hyps(2)[OF True Some Resolves] by blast
      next
        case (Rejects e)
        have "aligned outs (length (rej @ [e])) (slots[i := Some (JNum (int (length (rej @ [e]))))])"
          using al True Some Rejects aligned_reject[of outs "length rej" slots i e] by simp
        moreover have "join outs schedule (slots[i := Some (JNum (int (length (rej @ [e]))))], rej @ [e]) = (slots', rej')"
          using j True Some Rejects by simp
        ultimately show ?thesis using hyps(3)[OF True Some Rejects] by blast
      qed
    qed
  qed
qed

lemma join_rejected_from:
  "join outs sch (slots, rej) = (slots', rej')
   \<Longrightarrow> set rej' \<subseteq> set rej \<union> {e. \<exists>i < length outs. outs ! i = Some (Rejects e)}"
proof (induction outs sch "(slots, rej)" arbitrary: slots rej rule: join.induct)
  case (1 outs)
  then show ?case by simp
next
  case (2 outs i schedule slots rej)
  note hyps = "2.hyps" and j = "2.prems"(1)
  show ?case
  proof (cases "i < length outs \<and> i < length slots \<and> slots ! i = None")
    case False
    with hyps(4) j show ?thesis by auto
  next
    case True
    show ?thesis
    proof (cases "outs ! i")
      case None
      with True hyps(1) j show ?thesis by auto
    next
      case (Some st)
      show ?thesis
      proof (cases st)
        case (Resolves v)
        have "join outs schedule (slots[i := Some v], rej) = (slots', rej')"
          using j True Some Resolves by simp
        then show ?thesis using hyps(2)[OF True Some Resolves] by blast
      next
        case (Rejects e)
        have "join outs schedule (slots[i := Some (JNum (int (length (rej @ [e]))))], rej @ [e]) = (slots', rej')"
          using j True Some Rejects by simp
        then have "set rej' \<subseteq> set (rej @ [e]) \<union> {e. \<exists>i < length outs. outs ! i = Some (Rejects e)}"
          using hyps(3)[OF True Some Rejects] by blast
        with True Some Rejects show ?thesis by auto
      qed
    qed
  qed
qed

lemma print_rejects_fine:
  "\<forall>e \<in> set rs. \<not> nullOrUndefined e \<Longrightarrow>
   print_rejects rs out
     = (None, out @ map (\<lambda>e. Err (case stack_text e of Inr l \<Rightarrow> l | Inl x \<Rightarrow> [])) rs)"
  by (induction rs arbitrary: out)
     (auto simp: stack_text_def nullOrUndefined_def split: jsval.splits)

text \<open>
  The array a batch resolves with has one slot per task; a resolved task's slot holds its
  value, and a rejected task's slot holds a positive number, never \<^verbatim>\<open>undefined\<close>.
\<close>

lemma startAll_results:
  assumes "settled (startAll env (Some fns) opts events schedule) = Fulfilled rs"
  shows "length rs = length fns"
    and "i < length fns \<Longrightarrow> invoke (fns ! i) = Some (Resolves v) \<Longrightarrow> rs ! i = v"
    and "i < length fns \<Longrightarrow> invoke (fns ! i) = Some (Rejects e) \<Longrightarrow> \<exists>k > 0. rs ! i = JNum (int k)"
proof -
  obtain slots rej where j: "join (map invoke fns) schedule (replicate (length fns) None, []) = (slots, rej)"
    by (cases "join (map invoke fns) schedule (replicate (length fns) None, [])")
  have a0: "aligned (map invoke fns) (length ([]::jsval list)) (replicate (length fns) None)"
    by (simp add: aligned_def)
  have al: "aligned (map invoke fns) (length rej) slots"
    using join_aligned[OF a0 j] .
  from assms j have full: "None \<notin> set slots" and rs: "rs = map the slots"
    by (auto simp: startAll_def Let_def split: option.splits if_splits prod.splits)
  from al have len: "length slots = length fns" by (simp add: aligned_def)
  show "length rs = length fns" using rs len by simp
  {
    assume i: "i < length fns"
    with full len obtain x where x: "slots ! i = Some x"
      by (metis nth_mem not_Some_eq)
    have rsi: "rs ! i = x" using rs i len x by simp
    {
      assume "invoke (fns ! i) = Some (Resolves v)"
      with al i x show "rs ! i = v" unfolding rsi aligned_def
        by (auto split: option.splits settlement.splits dest!: spec[of _ i])
    }
    {
      assume "invoke (fns ! i) = Some (Rejects e)"
      with al i x have "\<exists>k. x = JNum (int k) \<and> 0 < k \<and> k \<le> length rej" unfolding aligned_def
        by (auto split: option.splits settlement.splits dest!: spec[of _ i])
      then show "\<exists>k > 0. rs ! i = JNum (int k)" unfolding rsi by blast
    }
  }
qed

text \<open>
  With valid tasks and options the promise of \<^verbatim>\<open>startAll\<close> is never rejected, as long as
  no reason that has to be printed is \<^verbatim>\<open>null\<close> or \<^verbatim>\<open>undefined\<close>.
\<close>

lemma startAll_fault_tolerant:
  assumes "check_entries fns = None" and "check_recap opts = None"
    and "rejectOpt opts \<Longrightarrow> \<forall>i < length fns. \<forall>e. invoke (fns ! i) = Some (Rejects e) \<longrightarrow> \<not> nullOrUndefined e"
  shows "settled (startAll env (Some fns) opts events schedule) \<noteq> Rejected err"
proof -
  obtain slots rej where j: "join (map invoke fns) schedule (replicate (length fns) None, []) = (slots, rej)"
    by (cases "join (map invoke fns) schedule (replicate (length fns) None, [])")
  have sub: "set rej \<subseteq> {e. \<exists>i < length fns. invoke (fns ! i) = Some (Rejects e)}"
    using join_rejected_from[OF j] by fastforce
  show ?thesis
  proof (cases "rejectOpt opts")
    case False
    with assms(1,2) j show ?thesis
      by (auto simp: startAll_def Let_def split: option.splits prod.splits)
  next
    case True
    with assms(3) sub have "\<forall>e \<in> set rej. \<not> nullOrUndefined e" by blast
    then have "print_rejects rej out
       = (None, out @ map (\<lambda>e. Err (case stack_text e of Inr l \<Rightarrow> l | Inl x \<Rightarrow> [])) rej)" for out
      by (rule print_rejects_fine)
    with assms(1,2) j show ?thesis
      by (simp add: startAll_def Let_def split: prod.splits)
  qed
qed

lemma startAll_same:
  assumes "check_recap o1 = check_recap o2" and "recapOpt o1 = recapOpt o2"
    and "rejectOpt o1 = rejectOpt o2"
  shows "startAll env fns o1 events schedule = startAll env fns o2 events schedule"
  unfolding startAll_def assms by (rule refl)

text \<open>
  Claim C5, as the code has it. With valid tasks: a \<open>recap\<close> that is neither absent nor one
  of \<^verbatim>\<open>none\<close>, \<^verbatim>\<open>error\<close>, \<^verbatim>\<open>always\<close> rejects the promise of \<^verbatim>\<open>startAll\<close> with the
  configuration error before any task is called; an absent \<open>recap\<close> is \<^verbatim>\<open>always\<close>; and
  a \<open>rejects\<close> that is not a boolean raises nothing: the batch runs as with \<^verbatim>\<open>true\<close>.
\<close>

theorem startAll_options:
  assumes "check_entries fns = None"
  shows "(\<not> nullOrUndefined r \<and> r \<notin> set recapSetOpt \<longrightarrow>
            startAll env (Some fns) \<lparr>recap = r, rejects = x\<rparr> events schedule
              = \<lparr>settled = Rejected (Error ''recap option must be none|error|always''),
                 invoked = [], printed = [], count_reset = False\<rparr>)
       \<and> (nullOrUndefined r \<longrightarrow>
            startAll env (Some fns) \<lparr>recap = r, rejects = x\<rparr> events schedule
              = startAll env (Some fns) \<lparr>recap = JStr (ascii ''always''), rejects = x\<rparr> events schedule)
       \<and> ((\<forall>b. x \<noteq> JBool b) \<longrightarrow>
            startAll env (Some fns) \<lparr>recap = r, rejects = x\<rparr> events schedule
              = startAll env (Some fns) \<lparr>recap = r, rejects = JBool True\<rparr> events schedule)"
proof (intro conjI impI)
  assume "\<not> nullOrUndefined r \<and> r \<notin> set recapSetOpt"
  with assms show "startAll env (Some fns) \<lparr>recap = r, rejects = x\<rparr> events schedule
              = \<lparr>settled = Rejected (Error ''recap option must be none|error|always''),
                 invoked = [], printed = [], count_reset = False\<rparr>"
    by (simp add: startAll_def check_recap_def)
next
  assume "nullOrUndefined r"
  then show "startAll env (Some fns) \<lparr>recap = r, rejects = x\<rparr> events schedule
              = startAll env (Some fns) \<lparr>recap = JStr (ascii ''always''), rejects = x\<rparr> events schedule"
    by (intro startAll_same)
       (auto simp: check_recap_def recapOpt_def rejectOpt_def recapSetOpt_def nullOrUndefined_def)
next
  assume "\<forall>b. x \<noteq> JBool b"
  then show "startAll env (Some fns) \<lparr>recap = r, rejects = x\<rparr> events schedule
              = startAll env (Some fns) \<lparr>recap = r, rejects = JBool True\<rparr> events schedule"
  proof (intro startAll_same)
    assume nb: "\<forall>b. x \<noteq> JBool b"
    show "check_recap \<lparr>recap = r, rejects = x\<rparr> = check_recap \<lparr>recap = r, rejects = JBool True\<rparr>"
      by (simp add: check_recap_def)
    show "recapOpt \<lparr>recap = r, rejects = x\<rparr> = recapOpt \<lparr>recap = r, rejects = JBool True\<rparr>"
      by (simp add: recapOpt_def)
    show "rejectOpt \<lparr>recap = r, rejects = x\<rparr> = rejectOpt \<lparr>recap = r, rejects = JBool True\<rparr>"
      using nb by (cases x) (auto simp: rejectOpt_def)
  qed
qed

theorem startAll_options_witness:
  "startAll (sample_env 80) (Some [Bare (AsyncFn (\<lambda>args. Resolves (JNum 7)))])
       \<lparr>recap = JStr (ascii ''sometimes''), rejects = JNum 1\<rparr> [] [0]
     = \<lparr>settled = Rejected (Error ''recap option must be none|error|always''),
        invoked = [], printed = [], count_reset = False\<rparr>
   \<and> startAll (sample_env 80) (Some [Bare (AsyncFn (\<lambda>args. Resolves (JNum 7)))])
       \<lparr>recap = JNull, rejects = JNum 1\<rparr> [] [0]
     = startAll (sample_env 80) (Some [Bare (AsyncFn (\<lambda>args. Resolves (JNum 7)))])
       \<lparr>recap = JStr (ascii ''always''), rejects = JNum 1\<rparr> [] [0]
   \<and> startAll (sample_env 80) (Some [Bare (AsyncFn (\<lambda>args. Resolves (JNum 7)))])
       \<lparr>recap = JNull, rejects = JNum 1\<rparr> [] [0]
     = startAll (sample_env 80) (Some [Bare (AsyncFn (\<lambda>args. Resolves (JNum 7)))])
       \<lparr>recap = JNull, rejects = JBool True\<rparr> [] [0]"
proof -
  have v: "check_entries [Bare (AsyncFn (\<lambda>args. Resolves (JNum 7)))] = None" by simp
  have a: "\<not> nullOrUndefined (JStr (ascii ''sometimes'')) \<and> JStr (ascii ''sometimes'') \<notin> set recapSetOpt"
    by (simp add: nullOrUndefined_def recapSetOpt_def ascii_def)
  have b: "nullOrUndefined JNull" by (simp add: nullOrUndefined_def)
  have c: "\<forall>b. JNum 1 \<noteq> JBool b" by simp
  show ?thesis
    using startAll_options [OF v, of "JStr (ascii ''sometimes'')" "sample_env 80" "JNum 1" "[]" "[0]"]
      startAll_options [OF v, of JNull "sample_env 80" "JNum 1" "[]" "[0]"] a b c
    by blast
qed

text \<open>
  Claim C5 as it is stated fails: with \<^verbatim>\<open>{ rejects: "yes" }\<close> the batch runs and resolves.
\<close>

theorem startAll_rejects_not_boolean:
  "startAll (sample_env 80) (Some [Bare (AsyncFn (\<lambda>args. Resolves (JNum 7)))])
             \<lparr>recap = JUndefined, rejects = JStr (ascii ''yes'')\<rparr> [] [0]
   = \<lparr>settled = Fulfilled [JNum 7], invoked = [0],
      printed = [CursorHide, MoveCursor 0 (Some 1), ClearLine,
                 Write (ascii ''0 / 1 : with 0 failed''), MoveCursor (- 21) (Some (- 1)),
                 MoveCursor 0 (Some 2), CursorShow],
      count_reset = True\<rparr>"
  by code_simp

text \<open>
  Claim C2 at \<^verbatim>\<open>[async () => 7, async () => { throw new Error("boom") }]\<close>: the slot of
  the rejected task holds 1, what \<^verbatim>\<open>rejects.push(err)\<close> returned, and not \<^verbatim>\<open>undefined\<close>.
\<close>

theorem startAll_rejected_slot:
  "settled (startAll env (Some [Bare (AsyncFn (\<lambda>args. Resolves (JNum 7))),
                                Bare (AsyncFn (\<lambda>args. Rejects (JError (ascii ''Error: boom''))))])
              \<lparr>recap = JUndefined, rejects = JUndefined\<rparr> events [0, 1])
   = Fulfilled [JNum 7, JNum 1]"
  by (simp add: batch_eval ascii_def split: prod.split)

text \<open>
  Claim C4 at \<^verbatim>\<open>[async () => { throw null }]\<close>: printing the diagnostic reads
  \<^verbatim>\<open>reject.stack\<close> of \<^verbatim>\<open>null\<close>, which throws inside \<^verbatim>\<open>startAll\<close>, and the promise of the
  batch is rejected.
\<close>

theorem startAll_null_reason:
  "settled (startAll env (Some [Bare (AsyncFn (\<lambda>args. Rejects JNull))])
              \<lparr>recap = JUndefined, rejects = JUndefined\<rparr> events [0])
   = Rejected (TypeError ''Cannot read properties of null (reading stack)'')"
  by (simp add: batch_eval ascii_def split: prod.split)

text \<open>
  When every task settles once, the reasons are captured in the order the tasks reject,
  one per rejected task.
\<close>

lemma join_rejected_once:
  assumes "distinct sch" and "\<forall>i \<in> set sch. i < length outs \<and> i < length slots \<and> slots ! i = None"
  shows "snd (join outs sch (slots, rej))
           = rej @ concat (map (\<lambda>i. case outs ! i of Some (Rejects e) \<Rightarrow> [e] | _ \<Rightarrow> []) sch)"
  using assms
proof (induction sch arbitrary: slots rej)
  case Nil
  then show ?case by simp
next
  case (Cons i sch)
  have i: "i < length outs" "i < length slots" "slots ! i = None" using Cons.prems(2) by simp_all
  have d: "distinct sch" and ni: "i \<notin> set sch" using Cons.prems(1) by simp_all
  have keep: "\<forall>j \<in> set sch. j < length outs \<and> j < length (slots[i := x]) \<and> (slots[i := x]) ! j = None"
    for x
    using Cons.prems(2) ni by (auto simp: nth_list_update)
  show ?case
  proof (cases "outs ! i")
    case None
    have "\<forall>j \<in> set sch. j < length outs \<and> j < length slots \<and> slots ! j = None"
      using Cons.prems(2) by simp
    with None i Cons.IH[OF d, of slots rej] show ?thesis by simp
  next
    case (Some st)
    show ?thesis
    proof (cases st)
      case (Resolves v)
      with Some i Cons.IH[OF d keep, of "Some v" rej] show ?thesis by simp
    next
      case (Rejects e)
      with Some i Cons.IH[OF d keep, of "Some (JNum (int (length (rej @ [e]))))" "rej @ [e]"]
      show ?thesis by simp
    qed
  qed
qed

lemma diagnostics_Nil [simp]: "diagnostics [] = []"
  by (simp add: diagnostics_def)

lemma diagnostics_Cons [simp]:
  "diagnostics (x # xs) = (case x of Err l \<Rightarrow> [l] | _ \<Rightarrow> []) @ diagnostics xs"
  by (simp add: diagnostics_def)

lemma diagnostics_append [simp]: "diagnostics (a @ b) = diagnostics a @ diagnostics b"
  by (simp add: diagnostics_def)

lemma diagnostics_writeRecap [simp]: "diagnostics (writeRecap env n cs) = []"
  by (simp add: writeRecap_def Let_def)

lemma diagnostics_on_event:
  "diagnostics (snd (on_event env n ropt ev st)) = diagnostics (snd st)"
  by (cases st; cases ev) (simp_all add: on_event_def Let_def)

lemma diagnostics_events:
  "diagnostics (snd (fold (on_event env n ropt) events st)) = diagnostics (snd st)"
  by (induction events arbitrary: st) (simp_all add: diagnostics_on_event)

lemma diagnostics_errs: "diagnostics (map Err ls) = ls"
  by (induction ls) simp_all

lemma print_rejects_none:
  "print_rejects rs out = (None, out3)
   \<Longrightarrow> out3 = out @ map (\<lambda>e. Err (case stack_text e of Inr l \<Rightarrow> l | Inl x \<Rightarrow> [])) rs"
proof (induction rs arbitrary: out)
  case Nil
  then show ?case by simp
next
  case (Cons a rs)
  from Cons.prems obtain l where l: "stack_text a = Inr l"
    and p: "print_rejects rs (out @ [Err l]) = (None, out3)"
    by (cases "stack_text a") simp_all
  from Cons.IH[OF p] l show ?case by simp
qed

text \<open>
  A batch that resolves with \<open>rejects\<close> on, every task settling at most once, has written
  with \<^verbatim>\<open>console.error\<close> one diagnostic per rejected task, in the order the tasks
  rejected, and nothing else.
\<close>

lemma startAll_diagnostics:
  assumes res: "settled (startAll env (Some fns) opts events schedule) = Fulfilled rs"
    and on: "rejectOpt opts"
    and sch: "distinct schedule" "set schedule \<subseteq> {..<length fns}"
  shows "diagnostics (printed (startAll env (Some fns) opts events schedule))
           = concat (map (\<lambda>i. case invoke (fns ! i) of
                                  Some (Rejects e) \<Rightarrow> [case stack_text e of Inr l \<Rightarrow> l | Inl x \<Rightarrow> []]
                                | _ \<Rightarrow> []) schedule)"
proof -
  let ?n = "length fns"
  let ?line = "\<lambda>e. case stack_text e of Inr l \<Rightarrow> l | Inl x \<Rightarrow> []"
  let ?st0 = "(\<lparr>n_started = 0, n_finished = 0, n_failed = 0,
                recap_on = (recapOpt opts = JStr (ascii ''always''))\<rparr>, [CursorHide])"
  obtain slots rej where j: "join (map invoke fns) schedule (replicate ?n None, []) = (slots, rej)"
    by (cases "join (map invoke fns) schedule (replicate ?n None, [])")
  obtain cs out1 where ev: "fold (on_event env ?n (recapOpt opts)) events ?st0 = (cs, out1)"
    by (cases "fold (on_event env ?n (recapOpt opts)) events ?st0")
  have d1: "diagnostics out1 = []"
    using diagnostics_events[of env ?n "recapOpt opts" events ?st0] ev
    by simp
  have pre: "\<forall>i \<in> set schedule. i < length (map invoke fns)
               \<and> i < length (replicate ?n (None::jsval option))
               \<and> replicate ?n (None::jsval option) ! i = None"
    using sch(2) by auto
  have rj: "rej = concat (map (\<lambda>i. case map invoke fns ! i of Some (Rejects e) \<Rightarrow> [e] | _ \<Rightarrow> []) schedule)"
    using join_rejected_once[OF sch(1) pre, of "[]"] j by simp
  have "diagnostics (printed (startAll env (Some fns) opts events schedule)) = map ?line rej"
  proof (cases "rej = []")
    case True
    with res j ev d1 show ?thesis
      by (auto simp: startAll_def Let_def split: option.splits if_splits)
  next
    case False
    obtain r out3 where pr: "print_rejects rej
        (if recap_on cs then out1 @ writeRecap env ?n cs @ [MoveCursor 0 (Some (int LINE_JUMP + 1))]
         else out1) = (r, out3)"
      by (cases "print_rejects rej
        (if recap_on cs then out1 @ writeRecap env ?n cs @ [MoveCursor 0 (Some (int LINE_JUMP + 1))]
         else out1)")
    from res j ev on False pr have r: "r = None"
      and p: "printed (startAll env (Some fns) opts events schedule) = out3 @ [CursorShow]"
      by (auto simp: startAll_def Let_def split: option.splits if_splits)
    from pr r print_rejects_none have "out3 = (if recap_on cs then out1 @ writeRecap env ?n cs @ [MoveCursor 0 (Some (int LINE_JUMP + 1))]
         else out1) @ map (\<lambda>e. Err (?line e)) rej"
      by blast
    then have "diagnostics out3 = diagnostics (map (\<lambda>e. Err (?line e)) rej)"
      using d1 by simp
    also have "\<dots> = map ?line rej"
      using diagnostics_errs[of "map ?line rej"] by (simp add: comp_def)
    finally show ?thesis using p by simp
  qed
  also have "\<dots> = concat (map (\<lambda>i. case invoke (fns ! i) of
                                  Some (Rejects e) \<Rightarrow> [?line e] | _ \<Rightarrow> []) schedule)"
    unfolding rj map_concat map_map
    using sch(2)
    by (intro arg_cong[of _ _ concat] map_cong refl)
       (auto split: option.splits settlement.splits)
  finally show ?thesis .
qed

section \<open>The frame index\<close>

lemma lineToRender_symbol_state: "snd (lineToRender env (Some g) sp) = sp"
  by (simp add: lineToRender_def nextFrame_def split: outcome.splits)

lemma lineToRender_symbol_only:
  assumes "symColor sp' = symColor sp" "symPrefixText sp' = symPrefixText sp" "symText sp' = symText sp"
  shows "fst (lineToRender env (Some g) sp') = fst (lineToRender env (Some g) sp)"
  using assms by (simp add: lineToRender_def nextFrame_def split: outcome.splits)

lemma lineToRender_frame:
  assumes "symSpinner sp = Some fs" and "frameIndex sp < length (frames fs)"
  shows "lineToRender env None sp
           = (fst (lineToRender env (Some (frames fs ! frameIndex sp)) sp),
              sp\<lparr>frameIndex := Suc (frameIndex sp) mod length (frames fs)\<rparr>)"
proof -
  have "(if frameIndex sp + 1 < length (frames fs) then frameIndex sp + 1 else 0)
          = Suc (frameIndex sp) mod length (frames fs)"
  proof (cases "Suc (frameIndex sp) < length (frames fs)")
    case True
    then show ?thesis by simp
  next
    case False
    with assms(2) have "length (frames fs) = Suc (frameIndex sp)" by simp
    then show ?thesis by simp
  qed
  with assms show ?thesis
    by (simp add: lineToRender_def nextFrame_def split: outcome.splits)
qed




section \<open>The stack position\<close>

lemma lineToRender_state:
  "\<exists>i. snd (lineToRender env symbol sp) = sp\<lparr>frameIndex := i\<rparr>"
proof (cases symbol)
  case (Some g)
  have "sp = sp\<lparr>frameIndex := frameIndex sp\<rparr>" by simp
  moreover have "snd (lineToRender env (Some g) sp) = sp"
    by (simp add: lineToRender_def nextFrame_def split: outcome.splits)
  ultimately show ?thesis using Some by metis
next
  case None
  show ?thesis
  proof (cases "symSpinner sp")
    case N: None
    have "sp = sp\<lparr>frameIndex := frameIndex sp\<rparr>" by simp
    moreover have "snd (lineToRender env None sp) = sp"
      using N by (simp add: lineToRender_def nextFrame_def)
    ultimately show ?thesis using None by metis
  next
    case (Some fs)
    then show ?thesis using None
      by (auto simp: lineToRender_def nextFrame_def split: outcome.splits)
  qed
qed

lemma lineToRender_keeps:
  "lineToRender env symbol sp = (line, sp') \<Longrightarrow>
   spinnerPos sp' = spinnerPos sp \<and> listening sp' = listening sp \<and> verbose sp' = verbose sp"
  using lineToRender_state[of env symbol sp] by auto

lemma text_set_keeps:
  "text_set v sp = Returns sp' \<Longrightarrow>
   spinnerPos sp' = spinnerPos sp \<and> listening sp' = listening sp \<and> verbose sp' = verbose sp
   \<and> symSpinner sp' = symSpinner sp"
  by (auto simp: text_set_def split: jsval.splits)

lemma text_override_keeps:
  "text_override v sp = Returns sp' \<Longrightarrow>
   spinnerPos sp' = spinnerPos sp \<and> listening sp' = listening sp \<and> verbose sp' = verbose sp
   \<and> symSpinner sp' = symSpinner sp"
  using text_set_keeps by (auto simp: text_override_def split: if_splits)

lemma color_set_keeps:
  "color_set v sp = Returns sp' \<Longrightarrow> spinnerPos sp' = spinnerPos sp \<and> listening sp' = listening sp"
  by (auto simp: color_set_def split: jsval.splits)

lemma spinner_set_keeps:
  "spinner_set env v sp = Returns sp' \<Longrightarrow> spinnerPos sp' = spinnerPos sp \<and> listening sp' = listening sp"
  by (auto simp: spinner_set_def split: spinner_src.splits option.splits)

lemma stop_instance_keeps:
  "stop_instance v sp = Returns sp' \<Longrightarrow> spinnerPos sp' = spinnerPos sp \<and> listening sp' = listening sp"
  by (auto simp: stop_instance_def split: if_splits outcome.splits dest: text_override_keeps)

lemma positioned_put:
  "positioned r p w \<Longrightarrow> (r' = r \<Longrightarrow> spinnerPos sp' = Some p \<and> \<not> listening sp')
   \<Longrightarrow> positioned r p (put r' sp' w)"
  by (auto simp: positioned_def put_def)

lemma positioned_other [simp]:
  "positioned r p (w\<lparr>trace := t\<rparr>) = positioned r p w"
  "positioned r p (w\<lparr>immediates := n\<rparr>) = positioned r p w"
  "positioned r p (w\<lparr>emitted := es\<rparr>) = positioned r p w"
  "positioned r p (w\<lparr>count := c\<rparr>) = positioned r p w"
  by (simp_all add: positioned_def)

lemma positioned_slot:
  "positioned r p w \<Longrightarrow> heap w r = Some sp \<Longrightarrow> spinnerPos sp = Some p \<and> \<not> listening sp"
  by (auto simp: positioned_def)

lemma positioned_assign:
  assumes "positioned r p w"
    and "\<And>sp sp'. f sp = Returns sp' \<Longrightarrow> spinnerPos sp' = spinnerPos sp \<and> listening sp' = listening sp"
  shows "positioned r p (assign r' f w)"
proof (cases "heap w r'")
  case None
  then show ?thesis using assms(1) by (simp add: assign_def)
next
  case (Some sp)
  show ?thesis
  proof (cases "f sp")
    case (Returns sp')
    have "positioned r p (put r' sp' w)"
    proof (rule positioned_put[OF assms(1)])
      assume "r' = r"
      with Some assms(1) have "spinnerPos sp = Some p \<and> \<not> listening sp"
        by (simp add: positioned_slot)
      with assms(2)[OF Returns] show "spinnerPos sp' = Some p \<and> \<not> listening sp'" by simp
    qed
    with Some Returns show ?thesis by (simp add: assign_def)
  qed (use Some assms(1) in \<open>simp_all add: assign_def\<close>)
qed

lemma positioned_stop:
  assumes "positioned r p w"
  shows "positioned r p (snd (stop r' v w))"
proof (cases "heap w r'")
  case None
  then show ?thesis using assms by (simp add: stop_def)
next
  case (Some sp)
  show ?thesis
  proof (cases "stop_instance v sp")
    case (Returns sp')
    have "positioned r p (put r' sp' w)"
    proof (rule positioned_put[OF assms])
      assume "r' = r"
      with Some assms have "spinnerPos sp = Some p \<and> \<not> listening sp"
        by (simp add: positioned_slot)
      with stop_instance_keeps[OF Returns] show "spinnerPos sp' = Some p \<and> \<not> listening sp'" by simp
    qed
    with Some Returns show ?thesis by (simp add: stop_def)
  qed (use Some assms in \<open>simp_all add: stop_def\<close>)
qed

lemma positioned_renderLine:
  assumes "positioned r p w"
  shows "positioned r p (snd (renderLine env r' symbol w))"
proof (cases "heap w r'")
  case None
  then show ?thesis using assms by (simp add: renderLine_def)
next
  case (Some sp)
  obtain line sp1 where l: "lineToRender env symbol sp = (line, sp1)"
    by (cases "lineToRender env symbol sp")
  have keep: "r' = r \<Longrightarrow> spinnerPos sp1 = Some p \<and> \<not> listening sp1"
    using lineToRender_keeps[OF l] positioned_slot[OF assms] Some by simp
  have "positioned r p (put r' sp1 (w\<lparr>trace := t\<rparr>))" for t
    by (rule positioned_put) (use assms keep in simp_all)
  then show ?thesis using Some l
    by (cases line) (simp_all add: renderLine_def Let_def)
qed

lemma positioned_finish:
  assumes "positioned r p w"
  shows "positioned r p (snd (finish env glyph ev r' v w))"
proof (cases "heap w r'")
  case None
  then show ?thesis using assms by (simp add: finish_def)
next
  case (Some sp)
  obtain o1 w1 where s: "stop r' v w = (o1, w1)" by (cases "stop r' v w")
  have p1: "positioned r p w1" using positioned_stop[OF assms, of r' v] s by simp
  obtain o2 w2 where rl: "renderLine env r' (Some glyph) w1 = (o2, w2)"
    by (cases "renderLine env r' (Some glyph) w1")
  have p2: "positioned r p w2" using positioned_renderLine[OF p1, of env r' "Some glyph"] rl by simp
  show ?thesis using Some s rl p1 p2 assms
    by (cases o1; cases o2) (simp_all add: finish_def)
qed

lemma positioned_start:
  assumes "positioned r p w"
  shows "positioned r p (snd (start env r' v w))"
proof (cases "heap w r'")
  case None
  then show ?thesis using assms by (simp add: start_def)
next
  case (Some sp)
  show ?thesis
  proof (cases "verbose sp")
    case False
    with Some assms show ?thesis by (simp add: start_def)
  next
    case True
    show ?thesis
    proof (cases "text_override v sp")
      case (Returns sp1)
      let ?sp2 = "sp1\<lparr>started := True, listening := False\<rparr>"
      let ?w1 = "w\<lparr>microtasks := (if listening sp1 then microtasks w @ [r'] else microtasks w),
                   immediates := Suc (immediates w)\<rparr>"
      obtain line sp3 where l: "lineToRender env None (?sp2\<lparr>frameIndex := 0\<rparr>) = (line, sp3)"
        by (cases "lineToRender env None (?sp2\<lparr>frameIndex := 0\<rparr>)")
      note k1 = text_override_keeps[OF Returns]
      note k3 = lineToRender_keeps[OF l]
      have same: "r' = r \<Longrightarrow> spinnerPos sp = Some p \<and> \<not> listening sp"
        using positioned_slot[OF assms] Some by simp
      have pw1: "positioned r p ?w1"
        using assms same k1 by (auto simp: positioned_def)
      have keep: "r' = r \<Longrightarrow> spinnerPos sp3 = Some p \<and> \<not> listening sp3"
        using same k1 k3 by simp
      have a: "positioned r p (put r' sp3 ?w1)"
        by (rule positioned_put[OF pw1]) (use keep in simp)
      have b: "positioned r p (put r' (sp3\<lparr>timers := n, handle := h\<rparr>) (?w1\<lparr>trace := t\<rparr>))" for n h t
        by (rule positioned_put) (use pw1 keep in simp_all)
      show ?thesis using Some True Returns l a b
        by (cases line) (simp_all add: start_def Let_def)
    qed (use Some True assms in \<open>simp_all add: start_def\<close>)
  qed
qed

lemma positioned_new:
  assumes "positioned r p w"
  shows "positioned r p (snd (new_spinner env opts w))"
  using assms
  by (cases "configure env opts") (auto simp: new_spinner_def positioned_def)

lemma run_microtasks_frame:
  "next_ref (run_microtasks q w) = next_ref w"
  "microtasks (run_microtasks q w) = microtasks w"
  "r \<notin> set q \<Longrightarrow> heap (run_microtasks q w) r = heap w r"
  by (induction q arbitrary: w) (auto simp: put_def split: option.splits)

lemma positioned_drain:
  assumes "positioned r p w"
  shows "positioned r p (drain w)"
  using assms by (simp add: drain_def positioned_def run_microtasks_frame)

lemma positioned_exec:
  "positioned r p w \<Longrightarrow> positioned r p (exec env a w)"
proof (cases a)
  case (SetPrefixText r' v)
  assume "positioned r p w"
  then have "positioned r p (assign r' (\<lambda>sp. Returns (prefixText_set v sp)) w)"
    by (rule positioned_assign) (auto simp: prefixText_set_def)
  with SetPrefixText show ?thesis by simp
qed (simp_all add: positioned_new positioned_start positioned_stop positioned_finish
       positioned_renderLine positioned_drain succeed_def failed_def run_immediates_def
       positioned_assign text_set_keeps color_set_keeps spinner_set_keeps)

lemma positioned_run:
  "positioned r p w \<Longrightarrow> positioned r p (run env acts w)"
  unfolding run_def by (induction acts arbitrary: w) (simp_all add: positioned_exec)

lemma run_microtasks_append:
  "run_microtasks (q @ q') w = run_microtasks q' (run_microtasks q w)"
  by (induction q arbitrary: w) simp_all

lemma run_microtasks_count:
  "count w = count w' \<Longrightarrow> \<forall>r \<in> set q. (heap w r = None) = (heap w' r = None)
   \<Longrightarrow> count (run_microtasks q w) = count (run_microtasks q w')"
proof (induction q arbitrary: w w')
  case Nil
  then show ?case by simp
next
  case (Cons r q)
  show ?case
  proof (cases "heap w r")
    case None
    with Cons.prems have n': "heap w' r = None" by simp
    have "count (run_microtasks q w) = count (run_microtasks q w')"
      using Cons.prems by (intro Cons.IH) simp_all
    with None n' show ?thesis by simp
  next
    case (Some sp)
    with Cons.prems have "heap w' r \<noteq> None" by simp
    then obtain sp' where s': "heap w' r = Some sp'" by blast
    let ?v = "(put r (sp\<lparr>spinnerPos := Some (count w)\<rparr>) w)\<lparr>count := Suc (count w)\<rparr>"
    let ?v' = "(put r (sp'\<lparr>spinnerPos := Some (count w')\<rparr>) w')\<lparr>count := Suc (count w')\<rparr>"
    have c: "count ?v = count ?v'" using Cons.prems(1) by simp
    have h: "\<forall>x \<in> set q. (heap ?v x = None) = (heap ?v' x = None)"
      using Cons.prems(2) by (simp add: put_def)
    have "count (run_microtasks q ?v) = count (run_microtasks q ?v')"
      using c h by (rule Cons.IH)
    with Some s' show ?thesis by simp
  qed
qed

lemma start_first:
  assumes "heap w r = Some sp" and "verbose sp" and "listening sp" and "spinnerPos sp = None"
    and "text_override v sp = Returns sp1"
  shows "\<exists>sp'. heap (snd (start env r v w)) r = Some sp' \<and> spinnerPos sp' = None
               \<and> started sp' \<and> \<not> listening sp'"
    and "microtasks (snd (start env r v w)) = microtasks w @ [r]"
    and "next_ref (snd (start env r v w)) = next_ref w"
    and "count (snd (start env r v w)) = count w"
    and "(heap (snd (start env r v w)) r' = None) = (heap w r' = None)"
proof -
  let ?sp2 = "sp1\<lparr>started := True, listening := False\<rparr>"
  obtain line sp3 where l: "lineToRender env None (?sp2\<lparr>frameIndex := 0\<rparr>) = (line, sp3)"
    by (cases "lineToRender env None (?sp2\<lparr>frameIndex := 0\<rparr>)")
  obtain i where sp3: "sp3 = ?sp2\<lparr>frameIndex := i\<rparr>"
    using lineToRender_state[of env None "?sp2\<lparr>frameIndex := 0\<rparr>"] l by auto
  note k1 = text_override_keeps[OF assms(5)]
  show "\<exists>sp'. heap (snd (start env r v w)) r = Some sp' \<and> spinnerPos sp' = None
               \<and> started sp' \<and> \<not> listening sp'"
    using assms l sp3 k1 by (cases line) (simp_all add: start_def Let_def put_def)
  show "microtasks (snd (start env r v w)) = microtasks w @ [r]"
    using assms l k1 by (cases line) (simp_all add: start_def Let_def put_def)
  show "next_ref (snd (start env r v w)) = next_ref w"
    using assms l by (cases line) (simp_all add: start_def Let_def put_def)
  show "count (snd (start env r v w)) = count w"
    using assms l by (cases line) (simp_all add: start_def Let_def put_def)
  show "(heap (snd (start env r v w)) r' = None) = (heap w r' = None)"
    using assms l by (cases line) (simp_all add: start_def Let_def put_def)
qed

text \<open>
  Claim C7. Take a verbose instance that was never started: its listener of line 61 is
  still registered and it has no position. A \<open>start\<close> that gets past its text argument
  marks it as started and queues the callback of lines 61 to 64, once. When the queue
  runs, the callback gives the instance the value the counter has at that moment (its
  value once the callbacks queued before have run) and adds one to the counter. After
  that nothing the class does, \<open>start\<close> on the same instance included, changes the position.
\<close>

theorem position_assigned_once:
  assumes "heap w r = Some sp" and "r < next_ref w" and "verbose sp" and "listening sp"
    and "spinnerPos sp = None" and "r \<notin> set (microtasks w)"
    and "text_override v sp = Returns sp1"
  shows "(\<exists>sp'. heap (snd (start env r v w)) r = Some sp' \<and> started sp' \<and> spinnerPos sp' = None)
       \<and> microtasks (snd (start env r v w)) = microtasks w @ [r]
       \<and> (\<exists>sp'. heap (drain (snd (start env r v w))) r = Some sp'
                 \<and> spinnerPos sp' = Some (count (drain w)))
       \<and> count (drain (snd (start env r v w))) = Suc (count (drain w))
       \<and> (\<forall>acts. \<exists>sp'. heap (run env acts (drain (snd (start env r v w)))) r = Some sp'
                         \<and> spinnerPos sp' = Some (count (drain w)))"
proof -
  let ?w1 = "snd (start env r v w)"
  let ?q = "microtasks w"
  note s = start_first[OF assms(1,3,4,5,7), of env]
  from s(1) obtain sp' where sp': "heap ?w1 r = Some sp'" "spinnerPos sp' = None"
    "started sp'" "\<not> listening sp'" by blast
  let ?a = "run_microtasks ?q (?w1\<lparr>microtasks := []\<rparr>)"
  have cnt: "count ?a = count (drain w)"
    unfolding drain_def by (rule run_microtasks_count) (simp_all add: s(4) s(5))
  have hp: "heap ?a r = Some sp'"
    using assms(6) sp'(1) by (simp add: run_microtasks_frame)
  have d: "drain ?w1 = (put r (sp'\<lparr>spinnerPos := Some (count ?a)\<rparr>) ?a)\<lparr>count := Suc (count ?a)\<rparr>"
    using hp by (simp add: drain_def s(2) run_microtasks_append)
  have pos: "positioned r (count (drain w)) (drain ?w1)"
    using assms(2) sp'(4) cnt
    by (simp add: d positioned_def put_def run_microtasks_frame s(3))
  have later: "\<exists>sp'. heap (run env acts (drain ?w1)) r = Some sp'
                 \<and> spinnerPos sp' = Some (count (drain w))" for acts
    using positioned_run[OF pos, of env acts] by (auto simp: positioned_def)
  have now: "\<exists>sp'. heap (drain ?w1) r = Some sp' \<and> spinnerPos sp' = Some (count (drain w))"
    using pos by (auto simp: positioned_def)
  have first: "\<exists>sp'. heap ?w1 r = Some sp' \<and> started sp' \<and> spinnerPos sp' = None"
    using sp' by blast
  have incr: "count (drain ?w1) = Suc (count (drain w))"
    using cnt by (simp add: d)
  from first s(2) now incr later show ?thesis by blast
qed

text \<open>The instance of the examples is the one the constructor builds.\<close>

lemma configure_sample:
  "configure (sample_env 80)
     \<lparr>opt_spinner = SrcAbsent, opt_prefixText = JUndefined, opt_text = JStr (ascii ''loading''),
      opt_color = JUndefined, opt_verbose = JUndefined\<rparr>
   = Returns sample_spinner"
  by code_simp

theorem position_assigned_once_witness:
  "(\<exists>sp'. heap (drain (snd (start (sample_env 80) 0 JUndefined (sample_world sample_spinner)))) 0
            = Some sp' \<and> spinnerPos sp' = Some 0)
   \<and> count (drain (snd (start (sample_env 80) 0 JUndefined (sample_world sample_spinner)))) = 1
   \<and> (\<forall>acts. \<exists>sp'. heap (run (sample_env 80) acts
                       (drain (snd (start (sample_env 80) 0 JUndefined (sample_world sample_spinner))))) 0
                     = Some sp' \<and> spinnerPos sp' = Some 0)"
proof -
  have h: "heap (sample_world sample_spinner) 0 = Some sample_spinner"
    and n: "0 < next_ref (sample_world sample_spinner)"
    and q: "0 \<notin> set (microtasks (sample_world sample_spinner))"
    by (simp_all add: sample_world_def)
  have v: "verbose sample_spinner" and l: "listening sample_spinner"
    and p: "spinnerPos sample_spinner = None"
    by (simp_all add: sample_spinner_def blank_def)
  have t: "text_override JUndefined sample_spinner = Returns sample_spinner"
    by (simp add: text_override_def nullOrUndefined_def)
  have c: "count (drain (sample_world sample_spinner)) = 0"
    by (simp add: drain_def sample_world_def)
  show ?thesis
    using position_assigned_once [OF h n v l p q t, of "sample_env 80"] unfolding c by simp
qed

lemma spinner_set_resets:
  "spinner_set env src sp = Returns sp' \<Longrightarrow> frameIndex sp' = 0"
  by (auto simp: spinner_set_def split: spinner_src.splits option.splits)

lemma start_logs_first_frame:
  assumes "heap w r = Some sp" and "verbose sp" and "text_override v sp = Returns sp1"
    and "symSpinner sp = Some fs" and "frames fs \<noteq> []"
  shows "trace (snd (start env r v w))
           = trace w @ (case fst (lineToRender env (Some (frames fs ! 0)) sp1) of
                          Returns l \<Rightarrow> [Log l] | Throws e \<Rightarrow> [] | Hangs \<Rightarrow> [])"
proof -
  let ?sp2 = "sp1\<lparr>started := True, listening := False\<rparr>"
  note k1 = text_override_keeps[OF assms(3)]
  have fs: "symSpinner (?sp2\<lparr>frameIndex := 0\<rparr>) = Some fs" using k1 assms(4) by simp
  have lt: "frameIndex (?sp2\<lparr>frameIndex := 0\<rparr>) < length (frames fs)" using assms(5) by simp
  have same: "fst (lineToRender env (Some (frames fs ! 0)) (?sp2\<lparr>frameIndex := 0\<rparr>))
                = fst (lineToRender env (Some (frames fs ! 0)) sp1)"
    by (rule lineToRender_symbol_only) simp_all
  have l: "lineToRender env None (?sp2\<lparr>frameIndex := 0\<rparr>)
             = (fst (lineToRender env (Some (frames fs ! 0)) sp1),
                ?sp2\<lparr>frameIndex := Suc 0 mod length (frames fs)\<rparr>)"
    using lineToRender_frame[OF fs lt, of env] same by simp
  show ?thesis
    using assms(1,2,3) l
    by (cases "fst (lineToRender env (Some (frames fs ! 0)) sp1)")
       (simp_all add: start_def Let_def put_def)
qed

text \<open>
  Claim C10. An assignment to \<open>spinner\<close> that is accepted leaves the frame index at 0, and
  the three accepted forms are a plain object with both fields, the name of a preset and
  an absent value. A \<open>start\<close> on a verbose instance sets the frame index to 0 before it
  renders: whatever the index was, the line it logs, if the render returns one, is the
  line of \<open>frames[0]\<close>.
\<close>

theorem frame_index_reset:
  "(\<forall>sp'. spinner_set env src sp = Returns sp' \<longrightarrow> frameIndex sp' = 0)
   \<and> (\<exists>sp'. spinner_set env (SrcObject (Some f) (Some i)) sp = Returns sp' \<and> frameIndex sp' = 0)
   \<and> (cliSpinners env n \<noteq> None \<longrightarrow>
        (\<exists>sp'. spinner_set env (SrcName n) sp = Returns sp' \<and> frameIndex sp' = 0))
   \<and> (\<exists>sp'. spinner_set env SrcAbsent sp = Returns sp' \<and> frameIndex sp' = 0)
   \<and> (heap w r = Some sp0 \<and> verbose sp0 \<and> text_override v sp0 = Returns sp1
        \<and> symSpinner sp0 = Some fs \<and> frames fs \<noteq> [] \<longrightarrow>
        trace (snd (start env r v w))
          = trace w @ (case fst (lineToRender env (Some (frames fs ! 0)) sp1) of
                         Returns l \<Rightarrow> [Log l] | Throws e \<Rightarrow> [] | Hangs \<Rightarrow> []))"
proof (intro conjI allI impI)
  fix sp'
  assume "spinner_set env src sp = Returns sp'"
  then show "frameIndex sp' = 0" by (rule spinner_set_resets)
next
  show "\<exists>sp'. spinner_set env (SrcObject (Some f) (Some i)) sp = Returns sp' \<and> frameIndex sp' = 0"
    by (simp add: spinner_set_def)
next
  assume "cliSpinners env n \<noteq> None"
  then show "\<exists>sp'. spinner_set env (SrcName n) sp = Returns sp' \<and> frameIndex sp' = 0"
    by (auto simp: spinner_set_def)
next
  show "\<exists>sp'. spinner_set env SrcAbsent sp = Returns sp' \<and> frameIndex sp' = 0"
    by (simp add: spinner_set_def)
next
  assume "heap w r = Some sp0 \<and> verbose sp0 \<and> text_override v sp0 = Returns sp1
        \<and> symSpinner sp0 = Some fs \<and> frames fs \<noteq> []"
  then show "trace (snd (start env r v w))
          = trace w @ (case fst (lineToRender env (Some (frames fs ! 0)) sp1) of
                         Returns l \<Rightarrow> [Log l] | Throws e \<Rightarrow> [] | Hangs \<Rightarrow> [])"
    using start_logs_first_frame by blast
qed

theorem frame_index_reset_witness:
  "(\<exists>sp'. spinner_set (sample_env 80) (SrcName (ascii ''dots'')) (sample_spinner\<lparr>frameIndex := 7\<rparr>)
            = Returns sp' \<and> frameIndex sp' = 0)
   \<and> trace (snd (start (sample_env 80) 0 JUndefined (sample_world (sample_spinner\<lparr>frameIndex := 7\<rparr>))))
      = [Log ([0x280B] @ ascii '' loading'')]"
proof -
  let ?sp = "sample_spinner\<lparr>frameIndex := 7\<rparr>"
  have d: "cliSpinners (sample_env 80) (ascii ''dots'') \<noteq> None" by (simp add: sample_env_def)
  have s: "heap (sample_world ?sp) 0 = Some ?sp \<and> verbose ?sp
           \<and> text_override JUndefined ?sp = Returns ?sp
           \<and> symSpinner ?sp = Some dots \<and> frames dots \<noteq> []"
    by (simp add: sample_world_def sample_spinner_def blank_def text_override_def
          nullOrUndefined_def dots_def)
  have f: "frames dots ! 0 = [0x280B]" by (simp add: dots_def)
  have r: "fst (lineToRender (sample_env 80) (Some [0x280B]) ?sp)
             = Returns ([0x280B] @ ascii '' loading'')"
    by code_simp
  have e: "trace (sample_world ?sp) = []" by (simp add: sample_world_def)
  show ?thesis
    using frame_index_reset [of "sample_env 80" "SrcName (ascii ''dots'')" ?sp "[]" 0
            "ascii ''dots''" "sample_world ?sp" 0 ?sp JUndefined ?sp dots] d s
    by (simp add: f r e)
qed

section \<open>The rendered line\<close>

subsection \<open>What a match leaves\<close>




subsection \<open>The sequences of a color\<close>



















subsection \<open>Scanning a cut line\<close>

text \<open>
  A colored raw line is an opening sequence \<open>P\<close>, the glyph \<open>F\<close>, the closing sequence
  \<open>C\<close> and the rest \<open>R\<close>. Its first \<open>k\<close> code units, alone or followed by the style reset,
  scan piece by piece.
\<close>

lemma part_zero [simp]: "part S 0 = []"
  by (simp add: part_def)











subsection \<open>Widths\<close>






subsection \<open>Where the cut falls\<close>


subsection \<open>The loop and the result on a colored line\<close>




lemma wcwidth_append [simp]: "wcwidth env (s @ t) = wcwidth env s + wcwidth env t"
  by (simp add: wcwidth_def)



lemma wcwidth_nil [simp]: "wcwidth env [] = 0"
  by (simp add: wcwidth_def)



subsection \<open>Painting the glyph\<close>






subsection \<open>A line without escape sequences\<close>











text \<open>
  Why a colored line needs some width before its cut is clean: on a terminal of 3
  columns the red glyph \<^verbatim>\<open>x\<close> is cut after 7 code units, one unit into the sequence that
  closes the color.
\<close>

lemma lineToRender_narrow_terminal:
  "fst (lineToRender (sample_env 3) (Some (ascii ''x''))
         (sample_spinner\<lparr>symColor := Some (ascii ''red'')\<rparr>))
     = Returns (csi ''31'' @ ascii ''x'' @ [ESC] @ reset_seq)
   \<and> cuts_sequence (csi ''31'' @ ascii ''x'' @ csi ''39'' @ ascii '' loading'') 7"
  by code_simp


end
